(* ===== verification/Go_Strings.thy ===== *)
theory Go_Strings
  imports Main "HOL-Library.Char_ord" "HOL-Library.Sublist"
begin

text \<open>
  The prelude: the functions of Go's \<open>strings\<close> and \<open>strconv\<close> packages that the daemon
  uses, on byte strings (a Go string is a sequence of bytes, a HOL \<open>string\<close> is a list of
  8-bit characters), and the lemmas about them that the components share.

  Unicode matters in three places and is kept: \<open>strings.TrimSpace\<close> and
  \<open>strings.Fields\<close> treat the UTF-8 encodings of the Unicode white space characters as
  space (\<open>ws_len\<close>), and \<open>strings.ToLower\<close> maps the two non-ASCII characters whose
  lower case is an ASCII letter (\<open>to_lower\<close>). UTF-8 is self-synchronising, so that
  scanning bytes for these encodings finds exactly the runes that Go's decoder finds.
\<close>

named_theorems str_simps "evaluation rules of the string library that are not simp rules"

text \<open>A range of bytes, as in Go's \<open>lo <= c && c <= hi\<close>.\<close>

abbreviation char_range :: "char \<Rightarrow> char \<Rightarrow> char \<Rightarrow> bool" where
  "char_range lo hi c \<equiv> lo \<le> c \<and> c \<le> hi"

section \<open>Prefixes, suffixes, cutting and splitting\<close>

definition has_prefix :: "string \<Rightarrow> string \<Rightarrow> bool" where
  "has_prefix s p \<longleftrightarrow> take (length p) s = p"

definition has_suffix :: "string \<Rightarrow> string \<Rightarrow> bool" where
  "has_suffix s p \<longleftrightarrow> length p \<le> length s \<and> drop (length s - length p) s = p"

definition trim_suffix :: "string \<Rightarrow> string \<Rightarrow> string" where
  "trim_suffix s p = (if has_suffix s p then take (length s - length p) s else s)"

text \<open>\<open>strings.Cut\<close> with a one-byte separator: what is before, what is after, found.\<close>

definition cut :: "string \<Rightarrow> char \<Rightarrow> string \<times> string \<times> bool" where
  "cut s c = (takeWhile (\<lambda>x. x \<noteq> c) s, drop 1 (dropWhile (\<lambda>x. x \<noteq> c) s), c \<in> set s)"

text \<open>\<open>strings.Split\<close> with a one-byte separator.\<close>

fun split_on :: "char \<Rightarrow> string \<Rightarrow> string list" where
  "split_on c [] = [[]]"
| "split_on c (x # xs) =
     (if x = c then [] # split_on c xs
      else (case split_on c xs of [] \<Rightarrow> [[x]] | y # ys \<Rightarrow> (x # y) # ys))"

fun join :: "string \<Rightarrow> string list \<Rightarrow> string" where
  "join sep [] = []"
| "join sep [x] = x"
| "join sep (x # y # ys) = x @ sep @ join sep (y # ys)"

fun contains :: "string \<Rightarrow> string \<Rightarrow> bool" where
  "contains [] p = (p = [])"
| "contains (x # xs) p = (has_prefix (x # xs) p \<or> contains xs p)"

text \<open>\<open>strings.TrimRight\<close> and \<open>strings.TrimLeft\<close> with an ASCII cut set.\<close>

definition trim_right_set :: "char list \<Rightarrow> string \<Rightarrow> string" where
  "trim_right_set cs s = rev (dropWhile (\<lambda>c. c \<in> set cs) (rev s))"

definition trim_left_set :: "char list \<Rightarrow> string \<Rightarrow> string" where
  "trim_left_set cs s = dropWhile (\<lambda>c. c \<in> set cs) s"

lemma has_prefix_append [simp]: "has_prefix (p @ s) p"
  by (simp add: has_prefix_def)

lemma has_prefix_iff: "has_prefix s p \<longleftrightarrow> (\<exists>t. s = p @ t)"
  by (auto simp: has_prefix_def) (metis append_take_drop_id)

lemma has_prefix_Nil [simp]: "has_prefix s []"
  by (simp add: has_prefix_def)

lemma has_prefix_Nil_left [simp]: "has_prefix [] p \<longleftrightarrow> p = []"
  by (auto simp: has_prefix_def)

lemma has_prefix_Cons [simp]: "has_prefix (x # xs) (y # ys) \<longleftrightarrow> x = y \<and> has_prefix xs ys"
  by (auto simp: has_prefix_def)

lemma has_suffix_iff: "has_suffix s p \<longleftrightarrow> (\<exists>t. s = t @ p)"
  by (auto simp: has_suffix_def) (metis append_take_drop_id)

lemma has_suffix_append [simp]: "has_suffix (t @ p) p"
  by (auto simp: has_suffix_iff)

lemma trim_suffix_append [simp]: "trim_suffix (t @ p) p = t"
  by (simp add: trim_suffix_def)

lemma trim_suffix_snoc [simp]: "trim_suffix (t @ [c]) [c] = t"
  by (rule trim_suffix_append)

lemma trim_suffix_id: "\<not> has_suffix s p \<Longrightarrow> trim_suffix s p = s"
  by (simp add: trim_suffix_def)

lemma contains_iff: "contains s p \<longleftrightarrow> (\<exists>a b. s = a @ p @ b)"
proof (induction s)
  case Nil
  then show ?case by auto
next
  case (Cons x xs)
  have "(\<exists>a b. x # xs = a @ p @ b) \<longleftrightarrow> (\<exists>b. x # xs = p @ b) \<or> (\<exists>a b. xs = a @ p @ b)"
    by (metis append_Cons append_Nil list.exhaust list.inject)
  then show ?case
    using Cons.IH by (simp add: has_prefix_iff)
qed

lemma contains_append_left: "contains s p \<Longrightarrow> contains (s @ t) p"
  by (metis append.assoc contains_iff)

lemma cut_found: "c \<notin> set a \<Longrightarrow> cut (a @ c # b) c = (a, b, True)"
  by (induction a) (auto simp: cut_def)

lemma cut_not_found: "c \<notin> set a \<Longrightarrow> cut a c = (a, [], False)"
  by (induction a) (auto simp: cut_def)

lemma split_on_not_Nil [simp]: "split_on c s \<noteq> []"
  by (induction s) (auto split: list.splits)

lemma split_on_no_sep: "c \<notin> set s \<Longrightarrow> split_on c s = [s]"
  by (induction s) auto

lemma split_on_append: "c \<notin> set a \<Longrightarrow> split_on c (a @ c # b) = a # split_on c b"
  by (induction a) auto

lemma split_on_join:
  "xs \<noteq> [] \<Longrightarrow> list_all (\<lambda>x. c \<notin> set x) xs \<Longrightarrow> split_on c (join [c] xs) = xs"
  by (induction xs rule: induct_list012) (auto simp: split_on_no_sep split_on_append)

lemma split_on_parts: "x \<in> set (split_on c s) \<Longrightarrow> c \<notin> set x"
  by (induction s arbitrary: x) (auto split: list.splits if_splits)

lemma join_split_on: "join [c] (split_on c s) = s"
proof (induction s)
  case Nil
  then show ?case by simp
next
  case (Cons x xs)
  then show ?case
    by (cases "split_on c xs" rule: list.exhaust; cases "tl (split_on c xs)") auto
qed

lemma length_split_on: "length (split_on c s) = Suc (count_list s c)"
  by (induction s) (auto split: list.splits)

lemma join_append:
  "xs \<noteq> [] \<Longrightarrow> ys \<noteq> [] \<Longrightarrow> join sep (xs @ ys) = join sep xs @ sep @ join sep ys"
proof (induction xs rule: induct_list012)
  case (2 x)
  then show ?case by (cases ys) auto
qed auto

lemma trim_right_set_id: "s = [] \<or> last s \<notin> set cs \<Longrightarrow> trim_right_set cs s = s"
  by (cases s rule: rev_cases) (auto simp: trim_right_set_def)


section \<open>White space\<close>

text \<open>
  \<open>ws_len s\<close> is the number of bytes of the white space rune that \<open>s\<close> starts with (the
  characters of \<open>unicode.IsSpace\<close>, in UTF-8), 0 if it starts with no such rune.
\<close>

definition ascii_space :: "char \<Rightarrow> bool" where
  "ascii_space c \<longleftrightarrow>
     c = CHR '' '' \<or> c = CHR 0x09 \<or> c = CHR 0x0A \<or> c = CHR 0x0B \<or> c = CHR 0x0C \<or> c = CHR 0x0D"

definition ws_len :: "string \<Rightarrow> nat" where
  "ws_len s =
     (case s of
        [] \<Rightarrow> 0
      | c # t \<Rightarrow>
          if ascii_space c then 1
          else (case t of
              [] \<Rightarrow> 0
            | d # u \<Rightarrow>
                if c = CHR 0xC2 \<and> (d = CHR 0x85 \<or> d = CHR 0xA0) then 2
                else (case u of
                    [] \<Rightarrow> 0
                  | e # _ \<Rightarrow>
                      if c = CHR 0xE1 \<and> d = CHR 0x9A \<and> e = CHR 0x80 \<or>
                         c = CHR 0xE2 \<and> d = CHR 0x80 \<and>
                           (CHR 0x80 \<le> e \<and> e \<le> CHR 0x8A \<or>
                            e = CHR 0xA8 \<or> e = CHR 0xA9 \<or> e = CHR 0xAF) \<or>
                         c = CHR 0xE2 \<and> d = CHR 0x81 \<and> e = CHR 0x9F \<or>
                         c = CHR 0xE3 \<and> d = CHR 0x80 \<and> e = CHR 0x80
                      then 3 else 0)))"

text \<open>A string as a list of units: a white space rune (\<open>True\<close>) or one other byte.\<close>

fun units :: "string \<Rightarrow> (bool \<times> string) list" where
  "units [] = []"
| "units (c # t) =
     (let n = ws_len (c # t)
      in if n = 0 then (False, [c]) # units t
         else (True, take n (c # t)) # units (drop (n - 1) t))"

definition ununits :: "(bool \<times> string) list \<Rightarrow> string" where
  "ununits us = concat (map snd us)"

text \<open>\<open>strings.TrimSpace\<close>.\<close>

definition trim_space :: "string \<Rightarrow> string" where
  "trim_space s = ununits (rev (dropWhile fst (rev (dropWhile fst (units s)))))"

text \<open>\<open>strings.Fields\<close> and \<open>strings.FieldsFunc\<close>: the maximal runs of non-separators.\<close>

fun fields_aux :: "(bool \<times> string) list \<Rightarrow> string \<Rightarrow> string list" where
  "fields_aux [] cur = (if cur = [] then [] else [cur])"
| "fields_aux ((True, _) # us) cur = (if cur = [] then [] else [cur]) @ fields_aux us []"
| "fields_aux ((False, b) # us) cur = fields_aux us (cur @ b)"

definition str_fields :: "string \<Rightarrow> string list" where
  "str_fields s = fields_aux (units s) []"

definition fields_func :: "(char \<Rightarrow> bool) \<Rightarrow> string \<Rightarrow> string list" where
  "fields_func P s = fields_aux (map (\<lambda>c. (P c, [c])) s) []"

lemma ununits_units: "ununits (units s) = s"
proof (induction s rule: units.induct)
  case (2 c t)
  then show ?case
    by (auto simp: ununits_def Let_def take_Cons' drop_Cons' split: if_splits)
qed (simp add: ununits_def)

text \<open>A printable ASCII character other than space: what names, options and status words hold.\<close>

definition plain :: "char \<Rightarrow> bool" where
  "plain c \<longleftrightarrow> CHR ''!'' \<le> c \<and> c \<le> CHR ''~''"

definition plain_word :: "string \<Rightarrow> bool" where
  "plain_word s \<longleftrightarrow> s \<noteq> [] \<and> list_all plain s"

lemma plain_not_space: "plain c \<Longrightarrow> \<not> ascii_space c"
  by (auto simp: plain_def ascii_space_def less_eq_char_def)

lemma plain_not_lead:
  "plain c \<Longrightarrow> c \<noteq> CHR 0xC2 \<and> c \<noteq> CHR 0xE1 \<and> c \<noteq> CHR 0xE2 \<and> c \<noteq> CHR 0xE3"
  by (auto simp: plain_def less_eq_char_def)

lemma plain_ws_len: "plain c \<Longrightarrow> ws_len (c # t) = 0"
  using plain_not_space [of c] plain_not_lead [of c] by (simp add: ws_len_def split: list.split)

lemma units_plain_append:
  "list_all plain s \<Longrightarrow> units (s @ t) = map (\<lambda>c. (False, [c])) s @ units t"
  by (induction s) (auto simp: plain_ws_len)

lemma units_plain: "list_all plain s \<Longrightarrow> units s = map (\<lambda>c. (False, [c])) s"
  using units_plain_append [of s "[]"] by simp

lemma units_space: "units (CHR '' '' # t) = (True, '' '') # units t"
  by (simp add: ws_len_def ascii_space_def)

lemma set_ununits: "set (ununits us) = (\<Union>u \<in> set us. set (snd u))"
  by (auto simp: ununits_def)

lemma set_trim_space: "set (trim_space s) \<subseteq> set s"
proof -
  have "set (dropWhile P xs) \<subseteq> set xs" for P :: "bool \<times> string \<Rightarrow> bool" and xs
    by (auto dest: set_dropWhileD)
  then have "set (rev (dropWhile fst (rev (dropWhile fst (units s))))) \<subseteq> set (units s)"
    by (metis set_rev subset_trans)
  then show ?thesis
    using set_ununits [of "units s"] unfolding ununits_units
    by (auto simp: trim_space_def set_ununits)
qed

lemma trim_space_id:
  assumes "units s \<noteq> []" and "\<not> fst (hd (units s))" and "\<not> fst (last (units s))"
  shows "trim_space s = s"
proof -
  have "dropWhile fst (units s) = units s"
    using assms by (cases "units s") auto
  moreover have "dropWhile fst (rev (units s)) = rev (units s)"
    using assms by (cases "units s" rule: rev_cases) auto
  ultimately show ?thesis
    by (simp add: trim_space_def ununits_units)
qed

lemma trim_space_Nil [simp]: "trim_space [] = []"
  by (simp add: trim_space_def ununits_def)

lemma trim_space_plain_word: "plain_word s \<Longrightarrow> trim_space s = s"
  by (rule trim_space_id)
     (auto simp: plain_word_def units_plain hd_map last_map)

lemma fields_aux_plain:
  "fields_aux (map (\<lambda>c. (False, [c])) w @ us) cur = fields_aux us (cur @ w)"
  by (induction w arbitrary: cur) auto

text \<open>Words of plain characters with blanks between them: \<open>Fields\<close> gives the words.\<close>

definition blank :: "char \<Rightarrow> bool" where
  "blank c \<longleftrightarrow> c = CHR '' '' \<or> c = CHR 0x09"

definition blank_word :: "string \<times> string \<Rightarrow> bool" where
  "blank_word p \<longleftrightarrow> fst p \<noteq> [] \<and> list_all blank (fst p) \<and> plain_word (snd p)"

definition spaced :: "(string \<times> string) list \<Rightarrow> string" where
  "spaced ps = concat (map (\<lambda>(b, w). b @ w) ps)"

lemma units_blanks: "list_all blank b \<Longrightarrow> units (b @ t) = map (\<lambda>c. (True, [c])) b @ units t"
  by (induction b) (auto simp: blank_def ws_len_def ascii_space_def)

lemma units_spaced:
  "list_all blank_word ps \<Longrightarrow>
   units (spaced ps) = concat (map (\<lambda>(b, w). map (\<lambda>c. (True, [c])) b @ map (\<lambda>c. (False, [c])) w) ps)"
  by (induction ps) (auto simp: spaced_def blank_word_def units_blanks units_plain_append plain_word_def)

lemma fields_aux_blanks:
  "b \<noteq> [] \<Longrightarrow> fields_aux (map (\<lambda>c. (True, [c])) b @ us) cur = (if cur = [] then [] else [cur]) @ fields_aux us []"
proof (induction b arbitrary: cur)
  case (Cons c b)
  then show ?case by (cases "b = []") simp_all
qed simp

lemma str_fields_spaced:
  assumes "plain_word w" and "list_all blank_word ps"
  shows "str_fields (w @ spaced ps) = w # map snd ps"
proof -
  have "fields_aux (concat (map (\<lambda>(b, w). map (\<lambda>c. (True, [c])) b @ map (\<lambda>c. (False, [c])) w) ps)) u = u # map snd ps"
    if "u \<noteq> []" "list_all blank_word ps" for u ps
    using that
    by (induction ps arbitrary: u) (auto simp: blank_word_def plain_word_def fields_aux_blanks fields_aux_plain)
  then show ?thesis
    using assms by (simp add: str_fields_def units_plain_append units_spaced fields_aux_plain plain_word_def)
qed

lemma last_spaced: "plain_word w \<Longrightarrow> list_all blank_word ps \<Longrightarrow> plain (last (w @ spaced ps))"
  by (cases ps rule: rev_cases)
    (auto simp: spaced_def plain_word_def blank_word_def list_all_iff split: prod.splits)

lemma trim_space_spaced:
  assumes "plain_word w" and "list_all blank_word ps"
  shows "trim_space (w @ spaced ps) = w @ spaced ps"
proof (rule trim_space_id)
  let ?u = "\<lambda>(b, w). map (\<lambda>c. (True, [c])) b @ map (\<lambda>c. (False, [c])) w"
  have w: "w \<noteq> []" using assms by (simp add: plain_word_def)
  have u: "units (w @ spaced ps) = map (\<lambda>c. (False, [c])) w @ concat (map ?u ps)"
    using assms by (simp add: units_plain_append units_spaced plain_word_def)
  show "units (w @ spaced ps) \<noteq> []" using u w by simp
  show "\<not> fst (hd (units (w @ spaced ps)))" using u w by (simp add: hd_map)
  show "\<not> fst (last (units (w @ spaced ps)))"
  proof (cases ps rule: rev_cases)
    case Nil
    then show ?thesis using u w by (simp add: last_map)
  next
    case (snoc qs p)
    then show ?thesis using u assms(2) by (auto simp: blank_word_def plain_word_def last_map split: prod.splits)
  qed
qed

text \<open>In particular words that are joined by single spaces.\<close>

lemma join_spaced: "join '' '' (w # ws) = w @ spaced (map (Pair '' '') ws)"
  by (induction ws arbitrary: w) (simp_all add: spaced_def)

lemma blank_words: "list_all plain_word ws \<Longrightarrow> list_all blank_word (map (Pair '' '') ws)"
  by (simp add: list_all_iff blank_word_def blank_def)

lemma str_fields_join: "list_all plain_word ws \<Longrightarrow> str_fields (join '' '' ws) = ws"
  by (cases ws) (simp add: str_fields_def, simp add: join_spaced str_fields_spaced blank_words comp_def del: join.simps)

lemma trim_space_join: "list_all plain_word (w # ws) \<Longrightarrow> trim_space (join '' '' (w # ws)) = join '' '' (w # ws)"
  unfolding join_spaced by (rule trim_space_spaced) (simp_all add: blank_words)

section \<open>Letter case\<close>

text \<open>
  \<open>strings.ToLower\<close>, up to the case of non-ASCII letters that stay non-ASCII: the code only
  compares the result with ASCII words, and U+0130 (to \<open>i\<close>) and U+212A (to \<open>k\<close>) are the
  only non-ASCII runes with an ASCII lower case. The bytes of every other rune are kept.
\<close>

definition lower_char :: "char \<Rightarrow> char" where
  "lower_char c =
     (if CHR ''A'' \<le> c \<and> c \<le> CHR ''Z'' then char_of (of_char c + 32 :: nat) else c)"

fun to_lower :: "string \<Rightarrow> string" where
  "to_lower [] = []"
| "to_lower (c # t) =
     (if c = CHR 0xC4 \<and> has_prefix t [CHR 0xB0] then CHR ''i'' # to_lower (tl t)
      else if c = CHR 0xE2 \<and> has_prefix t [CHR 0x84, CHR 0xAA] then CHR ''k'' # to_lower (drop 2 t)
      else lower_char c # to_lower t)"

text \<open>
  \<open>strings.EqualFold\<close> against a word of ASCII letters without \<open>k\<close> and \<open>s\<close> (the two
  letters with a non-ASCII character in their folding orbit): equality up to ASCII case.
\<close>

definition equal_fold_ascii :: "string \<Rightarrow> string \<Rightarrow> bool" where
  "equal_fold_ascii s t \<longleftrightarrow> map lower_char s = map lower_char t"

lemma of_char_lower:
  "(of_char (lower_char c) :: nat) = (if char_range CHR ''A'' CHR ''Z'' c then of_char c + 32 else of_char c)"
  by (auto simp: lower_char_def less_eq_char_def)

lemma lower_char_letter:
  "char_range CHR ''a'' CHR ''z'' (lower_char c) \<longleftrightarrow> char_range CHR ''a'' CHR ''z'' c \<or> char_range CHR ''A'' CHR ''Z'' c"
  by (auto simp: less_eq_char_def of_char_lower split: if_splits)

definition lower_plain :: "char \<Rightarrow> bool" where
  "lower_plain c \<longleftrightarrow> plain c \<and> \<not> (CHR ''A'' \<le> c \<and> c \<le> CHR ''Z'')"

lemma lower_plain_not_lead: "lower_plain c \<Longrightarrow> c \<noteq> CHR 0xC4 \<and> c \<noteq> CHR 0xE2 \<and> lower_char c = c"
  by (auto simp: lower_plain_def lower_char_def plain_def less_eq_char_def)

lemma to_lower_id: "list_all lower_plain s \<Longrightarrow> to_lower s = s"
  by (induction s) (auto simp: lower_plain_not_lead)

text \<open>The definitions to unfold when an expression on literal strings is evaluated.\<close>

declare has_prefix_def [str_simps] has_suffix_def [str_simps] trim_suffix_def [str_simps]
  cut_def [str_simps] trim_right_set_def [str_simps] trim_left_set_def [str_simps]
  ascii_space_def [str_simps] ws_len_def [str_simps] ununits_def [str_simps]
  trim_space_def [str_simps] str_fields_def [str_simps] fields_func_def [str_simps]
  lower_char_def [str_simps] equal_fold_ascii_def [str_simps]
  less_eq_char_def [str_simps] less_char_def [str_simps]

end
