(* ===== verification/Go_Strconv.thy ===== *)
theory Go_Strconv
  imports Go_Strings
begin

text \<open>
  The number parsing and printing of Go's \<open>strconv\<close> and \<open>fmt\<close> packages, with their
  ranges: \<open>ParseUint\<close> and \<open>ParseInt\<close> for an explicit base and bit size, \<open>Atoi\<close> (64-bit
  \<open>int\<close>), \<open>%d\<close>, and the \<open>%d\<close> verb of \<open>Sscanf\<close>.
  An explicit base admits neither a prefix such as \<open>0x\<close> nor underscores.
\<close>

section \<open>Digits\<close>

definition digit_val :: "char \<Rightarrow> nat option" where
  "digit_val c =
     (if CHR ''0'' \<le> c \<and> c \<le> CHR ''9'' then Some (of_char c - 48)
      else if CHR ''a'' \<le> c \<and> c \<le> CHR ''z'' then Some (of_char c - 97 + 10)
      else if CHR ''A'' \<le> c \<and> c \<le> CHR ''Z'' then Some (of_char c - 65 + 10)
      else None)"

definition digit_char :: "nat \<Rightarrow> char" where
  "digit_char d = (if d < 10 then char_of (48 + d) else char_of (87 + d))"

lemma of_char_digit_char:
  "d < 36 \<Longrightarrow> (of_char (digit_char d) :: nat) = (if d < 10 then 48 + d else 87 + d)"
  by (simp add: digit_char_def)

lemma digit_val_digit_char [simp]: "d < 36 \<Longrightarrow> digit_val (digit_char d) = Some d"
  by (simp add: digit_val_def less_eq_char_def of_char_digit_char)

lemma plain_digit_char: "d < 36 \<Longrightarrow> plain (digit_char d)"
  by (simp add: plain_def less_eq_char_def of_char_digit_char)

lemma digit_char_neq:
  assumes "d < 36" and "(of_char c :: nat) < 48 \<or> 57 < (of_char c :: nat) \<and> (of_char c :: nat) < 97"
  shows "digit_char d \<noteq> c"
  using assms of_char_digit_char [of d] by (auto split: if_splits)

section \<open>Parsing\<close>

datatype num_error = ErrSyntax | ErrRange

text \<open>
  \<open>ParseUint\<close>: the digits are read from the left, and the first one that is not a digit of
  the base or takes the value over the maximum of the bit size decides the error.
\<close>

fun parse_uint_loop :: "nat \<Rightarrow> nat \<Rightarrow> nat \<Rightarrow> string \<Rightarrow> num_error + nat" where
  "parse_uint_loop b mx n [] = Inr n"
| "parse_uint_loop b mx n (c # cs) =
     (case digit_val c of
        None \<Rightarrow> Inl ErrSyntax
      | Some d \<Rightarrow>
          if b \<le> d then Inl ErrSyntax
          else if mx < n * b + d then Inl ErrRange
          else parse_uint_loop b mx (n * b + d) cs)"

definition parse_uint :: "nat \<Rightarrow> nat \<Rightarrow> string \<Rightarrow> num_error + nat" where
  "parse_uint b bits s =
     (if s = [] then Inl ErrSyntax else parse_uint_loop b (2 ^ bits - 1) 0 s)"

definition split_sign :: "string \<Rightarrow> bool \<times> string" where
  "split_sign s =
     (case s of
        [] \<Rightarrow> (False, s)
      | c # t \<Rightarrow> if c = CHR ''+'' then (False, t) else if c = CHR ''-'' then (True, t) else (False, s))"

definition parse_int :: "nat \<Rightarrow> nat \<Rightarrow> string \<Rightarrow> num_error + int" where
  "parse_int b bits s =
     (if s = [] then Inl ErrSyntax
      else
        let (neg, t) = split_sign s; cutoff = 2 ^ (bits - 1)
        in case parse_uint b bits t of
             Inl e \<Rightarrow> Inl e
           | Inr un \<Rightarrow>
               if \<not> neg \<and> cutoff \<le> un then Inl ErrRange
               else if neg \<and> cutoff < un then Inl ErrRange
               else Inr (if neg then - int un else int un))"

definition atoi :: "string \<Rightarrow> int option" where
  "atoi s = (case parse_int 10 64 s of Inl _ \<Rightarrow> None | Inr n \<Rightarrow> Some n)"

section \<open>Printing\<close>

fun show_base :: "nat \<Rightarrow> nat \<Rightarrow> string" where
  "show_base b n =
     (if b < 2 \<or> n < b then [digit_char n] else show_base b (n div b) @ [digit_char (n mod b)])"

declare show_base.simps [simp del]

definition show_nat :: "nat \<Rightarrow> string" where
  "show_nat n = show_base 10 n"

definition show_int :: "int \<Rightarrow> string" where
  "show_int i = (if i < 0 then CHR ''-'' # show_nat (nat (- i)) else show_nat (nat i))"

text \<open>\<open>fmt.Sscanf(s, "%d", &n)\<close> on a trimmed string: a sign, then as many digits as there are.\<close>

definition is_digit :: "char \<Rightarrow> bool" where
  "is_digit c \<longleftrightarrow> CHR ''0'' \<le> c \<and> c \<le> CHR ''9''"

definition sscanf_int :: "string \<Rightarrow> int option" where
  "sscanf_int s =
     (let (neg, t) = split_sign s; ds = takeWhile is_digit t
      in if ds = [] then None else atoi (if neg then CHR ''-'' # ds else ds))"

section \<open>Round trips and ranges\<close>

lemma parse_uint_loop_bound:
  "parse_uint_loop b mx n s = Inr k \<Longrightarrow> n \<le> mx \<Longrightarrow> k \<le> mx"
  by (induction b mx n s rule: parse_uint_loop.induct) (auto split: option.splits if_splits)

lemma parse_uint_loop_append:
  "parse_uint_loop b mx n (s @ t) =
     (case parse_uint_loop b mx n s of Inl e \<Rightarrow> Inl e | Inr k \<Rightarrow> parse_uint_loop b mx k t)"
  by (induction b mx n s rule: parse_uint_loop.induct) (auto split: option.split)

lemma parse_uint_loop_show:
  assumes "2 \<le> b" and "b \<le> 36" and "n \<le> mx"
  shows "parse_uint_loop b mx 0 (show_base b n) = Inr n"
  using assms
proof (induction b n rule: show_base.induct)
  case (1 b n)
  show ?case
  proof (cases "n < b")
    case True
    then show ?thesis using "1.prems" by (subst show_base.simps) simp
  next
    case False
    have "n div b \<le> mx" using "1.prems" by (meson div_le_dividend le_trans)
    then have "parse_uint_loop b mx 0 (show_base b (n div b)) = Inr (n div b)"
      using "1.IH" "1.prems" False by simp
    moreover have "n mod b < b" using "1.prems" by simp
    ultimately show ?thesis
      using "1.prems" False less_le_trans [of "n mod b" b 36] by (subst show_base.simps) (simp add: parse_uint_loop_append not_le)
  qed
qed

lemma show_base_not_Nil [simp]: "show_base b n \<noteq> []"
  by (subst show_base.simps) simp

lemma show_base_digits:
  "2 \<le> b \<Longrightarrow> b \<le> 36 \<Longrightarrow> c \<in> set (show_base b n) \<Longrightarrow> \<exists>d < b. c = digit_char d"
proof (induction b n rule: show_base.induct)
  case (1 b n)
  show ?case
  proof (cases "n < b")
    case True
    then show ?thesis using "1.prems" by (simp add: show_base.simps [of b n]) blast
  next
    case False
    then have "c \<in> set (show_base b (n div b)) \<or> c = digit_char (n mod b)"
      using "1.prems" by (auto simp add: show_base.simps [of b n])
    moreover have "c \<in> set (show_base b (n div b)) \<Longrightarrow> \<exists>d < b. c = digit_char d"
      using "1.IH" "1.prems" False by simp
    moreover have "n mod b < b" using "1.prems" by simp
    ultimately show ?thesis by blast
  qed
qed

lemma parse_uint_show:
  "2 \<le> b \<Longrightarrow> b \<le> 36 \<Longrightarrow> n < 2 ^ bits \<Longrightarrow> parse_uint b bits (show_base b n) = Inr n"
  by (simp add: parse_uint_def parse_uint_loop_show)

lemma split_sign_show:
  assumes "2 \<le> b" and "b \<le> 36"
  shows "split_sign (show_base b n) = (False, show_base b n)"
proof (cases "show_base b n")
  case Nil
  then show ?thesis by simp
next
  case (Cons c t)
  then obtain d where "d < b" "c = digit_char d"
    using show_base_digits [OF assms, of c n] by auto
  then have "c \<noteq> CHR ''+''" "c \<noteq> CHR ''-''"
    using assms digit_char_neq [of d "CHR ''+''"] digit_char_neq [of d "CHR ''-''"] by simp_all
  then show ?thesis using Cons by (simp add: split_sign_def)
qed

lemma parse_int_show:
  assumes "2 \<le> b" and "b \<le> 36" and "n < 2 ^ (bits - 1)"
  shows "parse_int b bits (show_base b n) = Inr (int n)"
proof -
  have "n < 2 ^ bits"
    using assms(3) by (rule order_less_le_trans) (simp add: power_increasing)
  then show ?thesis
    using assms by (simp add: parse_int_def split_sign_show parse_uint_show)
qed

lemma parse_uint_bound: "parse_uint b bits s = Inr n \<Longrightarrow> n < 2 ^ bits"
proof -
  assume "parse_uint b bits s = Inr n"
  then have "n \<le> 2 ^ bits - 1"
    by (auto simp: parse_uint_def split: if_splits dest: parse_uint_loop_bound)
  moreover have "(0::nat) < 2 ^ bits" by simp
  ultimately show ?thesis by linarith
qed

lemma parse_int_bound:
  assumes "parse_int b bits s = Inr i"
  shows "- (2 ^ (bits - 1)) \<le> i \<and> i < 2 ^ (bits - 1)"
proof -
  obtain neg t un where st: "split_sign s = (neg, t)" and un: "parse_uint b bits t = Inr un"
    using assms by (auto simp: parse_int_def Let_def split: prod.splits sum.splits if_splits)
  let ?m = "2 ^ (bits - 1) :: int"
  from st un assms have c: "(neg \<longrightarrow> un \<le> 2 ^ (bits - 1)) \<and> (\<not> neg \<longrightarrow> un < 2 ^ (bits - 1)) \<and>
      i = (if neg then - int un else int un)"
    by (auto simp: parse_int_def Let_def split: if_splits)
  have m: "0 < ?m" by simp
  show ?thesis
  proof (cases neg)
    case True
    then have "int un \<le> ?m" using c by (metis of_nat_le_iff of_nat_numeral of_nat_power)
    moreover have "i = - int un" using c True by simp
    ultimately show ?thesis using m by linarith
  next
    case False
    then have "int un < ?m" using c by (metis of_nat_less_iff of_nat_numeral of_nat_power)
    moreover have "i = int un" using c False by simp
    ultimately show ?thesis using m by linarith
  qed
qed

lemma show_nat_chars: "c \<in> set (show_nat n) \<Longrightarrow> 48 \<le> (of_char c :: nat) \<and> (of_char c :: nat) \<le> 57"
  using show_base_digits [of 10 c n] of_char_digit_char by (auto simp: show_nat_def)

lemma show_nat_not_Nil [simp]: "show_nat n \<noteq> []"
  by (simp add: show_nat_def)

lemma show_nat_plain: "plain_word (show_nat n)"
  using show_nat_chars [of _ n] by (fastforce simp: plain_word_def list_all_iff plain_def less_eq_char_def)

lemma show_int_chars:
  "c \<in> set (show_int i) \<Longrightarrow> (of_char c :: nat) = 45 \<or> 48 \<le> (of_char c :: nat) \<and> (of_char c :: nat) \<le> 57"
  using show_nat_chars by (auto simp: show_int_def split: if_splits)

lemma show_int_not_Nil [simp]: "show_int i \<noteq> []"
  by (simp add: show_int_def)

lemma show_int_plain: "plain_word (show_int i)"
  using show_int_chars [of _ i] by (fastforce simp: plain_word_def list_all_iff plain_def less_eq_char_def)

lemma show_int_no:
  "(of_char c :: nat) \<noteq> 45 \<Longrightarrow> (of_char c :: nat) < 48 \<or> 57 < (of_char c :: nat) \<Longrightarrow> c \<notin> set (show_int i)"
  using show_int_chars [of c i] by auto

lemma parse_int_minus:
  assumes "split_sign t = (False, t)" and "t \<noteq> []"
  shows "parse_int b bits (CHR ''-'' # t) =
     (case parse_uint b bits t of Inl e \<Rightarrow> Inl e
      | Inr un \<Rightarrow> if 2 ^ (bits - 1) < un then Inl ErrRange else Inr (- int un))"
  by (auto simp: parse_int_def split_sign_def split: sum.split)

text \<open>The values of a 64-bit Go \<open>int\<close>. \<open>Atoi\<close> reads back what \<open>%d\<close> printed for each of them.\<close>

definition int64 :: "int \<Rightarrow> bool" where
  "int64 i \<longleftrightarrow> - (2 ^ 63) \<le> i \<and> i < 2 ^ 63"

lemma atoi_show_int:
  assumes "int64 i"
  shows "atoi (show_int i) = Some i"
proof (cases "i < 0")
  case True
  have "nat (- i) < 2 ^ 64" "nat (- i) \<le> 2 ^ 63" using assms True by (auto simp: int64_def)
  then show ?thesis
    using True
    by (simp add: atoi_def show_int_def show_nat_def parse_int_minus split_sign_show parse_uint_show)
next
  case False
  have "nat i < 2 ^ (64 - 1)" using assms False by (auto simp: int64_def)
  then show ?thesis
    using False by (simp add: atoi_def show_int_def show_nat_def parse_int_show)
qed

lemma show_int_inj: "int64 i \<Longrightarrow> int64 j \<Longrightarrow> show_int i = show_int j \<longleftrightarrow> i = j"
  by (metis atoi_show_int option.inject)

lemma atoi_int64: "atoi s = Some i \<Longrightarrow> int64 i"
  using parse_int_bound [of 10 64 s i] by (simp add: atoi_def int64_def split: sum.splits)

lemma show_base_length: "n < 10 ^ k \<Longrightarrow> 0 < k \<Longrightarrow> length (show_base 10 n) \<le> k"
proof (induction k arbitrary: n)
  case (Suc k)
  show ?case
  proof (cases "n < 10")
    case True
    then show ?thesis by (subst show_base.simps) simp
  next
    case False
    then have "0 < k" using Suc.prems(1) by (cases k) auto
    moreover have "n div 10 < 10 ^ k" using Suc.prems(1) by (simp add: less_mult_imp_div_less mult.commute)
    ultimately have "length (show_base 10 (n div 10)) \<le> k" using Suc.IH by blast
    then show ?thesis using False by (subst show_base.simps) simp
  qed
qed simp

lemma show_int_length: "int64 i \<Longrightarrow> length (show_int i) \<le> 20"
proof -
  assume "int64 i"
  then have "\<bar>i\<bar> < 10 ^ 19" by (auto simp: int64_def abs_less_iff)
  then have "nat \<bar>i\<bar> < 10 ^ 19" by (simp add: nat_less_iff)
  then have "length (show_base 10 (nat \<bar>i\<bar>)) \<le> 19" by (rule show_base_length) simp
  then show "length (show_int i) \<le> 20" by (auto simp: show_int_def show_nat_def)
qed

lemma sscanf_show_int:
  assumes "int64 i"
  shows "sscanf_int (show_int i) = Some i"
proof -
  have d: "takeWhile is_digit (show_nat n) = show_nat n" for n
    using show_nat_chars [of _ n] by (auto simp: takeWhile_eq_all_conv is_digit_def less_eq_char_def)
  have s: "split_sign (show_nat n) = (False, show_nat n)" for n
    by (simp add: show_nat_def split_sign_show)
  show ?thesis
  proof (cases "i < 0")
    case True
    then show ?thesis
      using atoi_show_int [OF assms] by (simp add: sscanf_int_def show_int_def d split_sign_def)
  next
    case False
    then show ?thesis
      using atoi_show_int [OF assms] by (simp add: sscanf_int_def show_int_def d s)
  qed
qed

lemma sscanf_no_digit:
  assumes "list_all (\<lambda>c. \<not> is_digit c) s"
  shows "sscanf_int s = None"
proof -
  have "set (snd (split_sign s)) \<subseteq> set s" by (auto simp: split_sign_def split: list.splits if_splits)
  then have "takeWhile is_digit (snd (split_sign s)) = []"
    using assms by (cases "snd (split_sign s)") (auto simp: list_all_iff)
  then show ?thesis by (simp add: sscanf_int_def split_beta Let_def)
qed

declare digit_val_def [str_simps] parse_uint_def [str_simps] split_sign_def [str_simps]
  parse_int_def [str_simps] atoi_def [str_simps] is_digit_def [str_simps]

lemma show_int_100: "show_int 100 = ''100''"
  by (simp add: show_int_def show_nat_def show_base.simps digit_char_def char_of_def bit_iff_odd_drop_bit
      drop_bit_eq_div)

end
