(* ===== verification/Go_Files.thy ===== *)
theory Go_Files
  imports Go_Strconv
begin

text \<open>
  What the daemon uses of \<open>path/filepath\<close>, \<open>os\<close> and \<open>bufio\<close>. The file system itself is
  the environment: a function from cleaned paths to an error or a node. A node is a regular
  file with what reading it yields, a file of which only the given bytes can be read before
  reading fails (\<open>Failing\<close>), or a directory with its sorted entries (name and
  \<open>DirEntry.IsDir\<close>). A file whose content is an error is one that can be stat-ed but not
  opened (the mode-0600 pid files of PVE); reading a directory fails after a successful open.
\<close>

section \<open>Paths\<close>

fun clean_comps :: "bool \<Rightarrow> string list \<Rightarrow> string list \<Rightarrow> string list" where
  "clean_comps rooted acc [] = rev acc"
| "clean_comps rooted acc (c # cs) =
     (if c = [] \<or> c = ''.'' then clean_comps rooted acc cs
      else if c = ''..'' then
        (if acc \<noteq> [] \<and> hd acc \<noteq> ''..'' then clean_comps rooted (tl acc) cs
         else if rooted then clean_comps rooted acc cs
         else clean_comps rooted (c # acc) cs)
      else clean_comps rooted (c # acc) cs)"

definition path_clean :: "string \<Rightarrow> string" where
  "path_clean s =
     (if s = [] then ''.''
      else
        let rooted = has_prefix s ''/'';
            r = (if rooted then ''/'' else []) @ join ''/'' (clean_comps rooted [] (split_on CHR ''/'' s))
        in if r = [] then ''.'' else r)"

definition path_join :: "string list \<Rightarrow> string" where
  "path_join els =
     (case dropWhile (\<lambda>e. e = []) els of [] \<Rightarrow> [] | es \<Rightarrow> path_clean (join ''/'' es))"

text \<open>A path component that \<open>Clean\<close> keeps as it is.\<close>

definition plain_comp :: "string \<Rightarrow> bool" where
  "plain_comp c \<longleftrightarrow> c \<noteq> [] \<and> c \<noteq> ''.'' \<and> c \<noteq> ''..'' \<and> CHR ''/'' \<notin> set c"

lemma clean_comps_plain:
  "list_all plain_comp cs \<Longrightarrow> clean_comps rooted acc cs = rev acc @ cs"
  by (induction cs arbitrary: acc) (auto simp: plain_comp_def)

lemma path_join_rooted:
  assumes "cs \<noteq> []" and "list_all plain_comp cs" and "list_all plain_comp ds"
  shows "path_join ((CHR ''/'' # join ''/'' cs) # ds) = CHR ''/'' # join ''/'' (cs @ ds)"
proof -
  have sep: "list_all (\<lambda>x. CHR ''/'' \<notin> set x) (cs @ ds)"
    using assms(2,3) by (auto simp: list_all_iff plain_comp_def)
  have j: "join ''/'' ((CHR ''/'' # join ''/'' cs) # ds) = CHR ''/'' # join ''/'' (cs @ ds)"
    using assms(1) by (cases ds) (simp_all add: join_append)
  have "split_on CHR ''/'' (CHR ''/'' # join ''/'' (cs @ ds)) = [] # cs @ ds"
    using split_on_join [OF _ sep] assms(1) by simp
  then show ?thesis
    using assms by (simp add: path_join_def j path_clean_def clean_comps_plain)
qed

section \<open>The file system\<close>

datatype io_error = NotExist | IOErr string

datatype fnode =
    RegFile "io_error + string"
  | Failing string
  | Directory "io_error + (string \<times> bool) list"

type_synonym fs = "string \<Rightarrow> io_error + fnode"

text \<open>\<open>os.Stat\<close>: whether it is a directory.\<close>

definition stat :: "fs \<Rightarrow> string \<Rightarrow> io_error + bool" where
  "stat fs p =
     (case fs p of
        Inl e \<Rightarrow> Inl e
      | Inr (RegFile _) \<Rightarrow> Inr False
      | Inr (Failing _) \<Rightarrow> Inr False
      | Inr (Directory _) \<Rightarrow> Inr True)"

text \<open>\<open>os.Open\<close> and then reading to the end: the bytes and whether reading failed.\<close>

definition fopen :: "fs \<Rightarrow> string \<Rightarrow> io_error + (string \<times> bool)" where
  "fopen fs p =
     (case fs p of
        Inl e \<Rightarrow> Inl e
      | Inr (RegFile (Inl e)) \<Rightarrow> Inl e
      | Inr (RegFile (Inr b)) \<Rightarrow> Inr (b, False)
      | Inr (Failing b) \<Rightarrow> Inr (b, True)
      | Inr (Directory _) \<Rightarrow> Inr ([], True))"

definition read_file :: "fs \<Rightarrow> string \<Rightarrow> io_error + string" where
  "read_file fs p =
     (case fopen fs p of
        Inl e \<Rightarrow> Inl e
      | Inr (b, failed) \<Rightarrow> if failed then Inl (IOErr ''read error'') else Inr b)"

definition read_dir :: "fs \<Rightarrow> string \<Rightarrow> io_error + (string \<times> bool) list" where
  "read_dir fs p =
     (case fs p of
        Inl e \<Rightarrow> Inl e
      | Inr (RegFile _) \<Rightarrow> Inl (IOErr ''not a directory'')
      | Inr (Failing _) \<Rightarrow> Inl (IOErr ''not a directory'')
      | Inr (Directory es) \<Rightarrow> es)"

text \<open>A file system given by a finite table, for concrete inputs.\<close>

definition fs_of :: "(string \<times> fnode) list \<Rightarrow> fs" where
  "fs_of t p = (case map_of t p of None \<Rightarrow> Inl NotExist | Some n \<Rightarrow> Inr n)"

lemma read_file_iff: "read_file fs p = Inr b \<longleftrightarrow> fs p = Inr (RegFile (Inr b))"
  by (auto simp: read_file_def fopen_def split: sum.splits fnode.splits)

section \<open>Scanning lines\<close>

text \<open>
  \<open>bufio.Scanner\<close> with \<open>ScanLines\<close>: the lines without their newline and without one
  carriage return before it. A line of \<open>mx\<close> bytes or more (the scanner's buffer limit)
  ends the scan with \<open>ErrTooLong\<close> after the lines before it; a last line without newline
  counts if it is not empty. The boolean is \<open>Scanner.Err() != nil\<close>.
\<close>

definition drop_cr :: "string \<Rightarrow> string" where
  "drop_cr l = (if l \<noteq> [] \<and> last l = CHR 0x0D then butlast l else l)"

fun scan_tokens :: "nat \<Rightarrow> string list \<Rightarrow> string list \<times> bool" where
  "scan_tokens mx [] = ([], False)"
| "scan_tokens mx [l] = (if mx \<le> length l then ([], True) else (if l = [] then [] else [drop_cr l], False))"
| "scan_tokens mx (l # k # ls) =
     (if mx \<le> length l then ([], True)
      else let (ts, e) = scan_tokens mx (k # ls) in (drop_cr l # ts, e))"

definition scan_lines :: "nat \<Rightarrow> string \<Rightarrow> string list \<times> bool" where
  "scan_lines mx s = scan_tokens mx (split_on CHR 0x0A s)"

definition max_scan_token :: nat where
  "max_scan_token = 64 * 1024"

text \<open>A line that the scanner hands on unchanged.\<close>

definition clean_line :: "nat \<Rightarrow> string \<Rightarrow> bool" where
  "clean_line mx l \<longleftrightarrow> length l < mx \<and> CHR 0x0A \<notin> set l \<and> CHR 0x0D \<notin> set l"

lemma drop_cr_id: "CHR 0x0D \<notin> set l \<Longrightarrow> drop_cr l = l"
  by (auto simp: drop_cr_def dest: last_in_set)

text \<open>A file of lines, each ended by a newline, is scanned to these lines.\<close>

lemma scan_lines_unlines:
  "list_all (clean_line mx) ls \<Longrightarrow> 0 < mx \<Longrightarrow>
   scan_lines mx (concat (map (\<lambda>l. l @ [CHR 0x0A]) ls)) = (ls, False)"
proof (induction ls)
  case Nil
  then show ?case by (simp add: scan_lines_def)
next
  case (Cons l ls)
  let ?r = "split_on CHR 0x0A (concat (map (\<lambda>l. l @ [CHR 0x0A]) ls))"
  obtain k ks where r: "?r = k # ks" by (cases ?r) auto
  have "scan_tokens mx (k # ks) = (ls, False)"
    using Cons r by (simp add: scan_lines_def)
  moreover have "split_on CHR 0x0A (concat (map (\<lambda>l. l @ [CHR 0x0A]) (l # ls))) = l # k # ks"
    using Cons.prems r by (simp add: clean_line_def split_on_append)
  ultimately show ?case
    using Cons.prems by (simp add: scan_lines_def clean_line_def drop_cr_id)
qed

text \<open>A file that begins with such lines, whatever follows them; they may end with a carriage return.\<close>

abbreviation unlines :: "string list \<Rightarrow> string" where
  "unlines ls \<equiv> concat (map (\<lambda>l. l @ [CHR 0x0A]) ls)"

definition short_line :: "nat \<Rightarrow> string \<Rightarrow> bool" where
  "short_line mx l \<longleftrightarrow> length l < mx \<and> CHR 0x0A \<notin> set l"

lemma scan_lines_append:
  "list_all (short_line mx) ls \<Longrightarrow>
   scan_lines mx (unlines ls @ s) = (map drop_cr ls @ fst (scan_lines mx s), snd (scan_lines mx s))"
proof (induction ls)
  case (Cons l ls)
  obtain k ks where r: "split_on CHR 0x0A (unlines ls @ s) = k # ks" by (cases "split_on CHR 0x0A (unlines ls @ s)") auto
  then have "scan_tokens mx (k # ks) = (map drop_cr ls @ fst (scan_lines mx s), snd (scan_lines mx s))"
    using Cons by (simp add: scan_lines_def)
  moreover have "split_on CHR 0x0A (unlines (l # ls) @ s) = l # k # ks"
    using Cons.prems r by (simp add: short_line_def split_on_append)
  ultimately show ?case using Cons.prems by (simp add: scan_lines_def short_line_def)
qed simp

lemma scan_lines_last: "short_line mx l \<Longrightarrow> l \<noteq> [] \<Longrightarrow> scan_lines mx l = ([drop_cr l], False)"
  by (simp add: scan_lines_def short_line_def split_on_no_sep)

lemma scan_lines_chars:
  assumes "t \<in> set (fst (scan_lines mx s))"
  shows "set t \<subseteq> set s"
proof -
  have "\<exists>l \<in> set ls. set t \<subseteq> set l" if "t \<in> set (fst (scan_tokens mx ls))" for ls
    using that
  proof (induction mx ls rule: scan_tokens.induct)
    case (2 mx l)
    then show ?case by (auto simp: drop_cr_def split: if_splits dest: in_set_butlastD)
  next
    case (3 mx l k ls)
    then show ?case by (auto simp: drop_cr_def split: if_splits prod.splits dest: in_set_butlastD)
  qed simp
  moreover have "\<forall>l \<in> set (split_on CHR 0x0A s). set l \<subseteq> set s"
    by (induction s) (auto split: list.splits)
  ultimately show ?thesis using assms unfolding scan_lines_def by blast
qed

text \<open>Nothing is scanned from a text only if it is empty or begins with a line that is too long.\<close>

lemma scan_lines_empty: "scan_lines mx s = ([], False) \<Longrightarrow> s = []"
proof -
  have tokens: "scan_tokens mx ls = ([], False) \<Longrightarrow> ls = [] \<or> ls = [[]]" for ls
    by (cases "(mx, ls)" rule: scan_tokens.cases) (auto split: if_splits prod.splits)
  assume "scan_lines mx s = ([], False)"
  then have "join [CHR 0x0A] (split_on CHR 0x0A s) = []" using tokens by (fastforce simp: scan_lines_def)
  then show "s = []" by (simp add: join_split_on)
qed

text \<open>The lines never exceed the limit.\<close>

lemma scan_tokens_short: "t \<in> set (fst (scan_tokens mx ls)) \<Longrightarrow> length t < mx"
  by (induction mx ls rule: scan_tokens.induct)
     (auto simp: drop_cr_def split: prod.splits if_splits)

declare drop_cr_def [str_simps] scan_lines_def [str_simps] stat_def [str_simps] fopen_def [str_simps]
  read_file_def [str_simps]

end
