(* ===== verification/Go_Glob.thy ===== *)
theory Go_Glob
  imports Go_Files
begin

text \<open>
  \<open>filepath.Match\<close> and \<open>filepath.Glob\<close>: the pattern language with stars, question marks,
  character classes and escapes. A pattern is first read into tokens (\<open>None\<close> is
  \<open>ErrBadPattern\<close>), which then match byte strings; the classes and the question mark read
  one UTF-8 encoded rune.
\<close>

section \<open>Runes\<close>

text \<open>\<open>utf8.DecodeRuneInString\<close>: the code point and its width, \<open>(65533, 1)\<close> if invalid.\<close>

definition cont :: "char \<Rightarrow> nat \<Rightarrow> nat \<Rightarrow> bool" where
  "cont c lo hi \<longleftrightarrow> lo \<le> (of_char c :: nat) \<and> (of_char c :: nat) \<le> hi"

definition low6 :: "char \<Rightarrow> nat" where
  "low6 c = (of_char c :: nat) mod 64"

definition decode_rune :: "string \<Rightarrow> nat \<times> nat" where
  "decode_rune s =
     (case s of
        [] \<Rightarrow> (65533, 0)
      | a # t \<Rightarrow>
          let x = (of_char a :: nat); bad = (65533, 1)
          in if x < 128 then (x, 1)
             else if x < 194 \<or> 244 < x then bad
             else (case t of
                 [] \<Rightarrow> bad
               | b # u \<Rightarrow>
                   if x < 224 then
                     (if cont b 128 191 then ((x mod 32) * 64 + low6 b, 2) else bad)
                   else if \<not> cont b (if x = 224 then 160 else if x = 240 then 144 else 128)
                                   (if x = 237 then 159 else if x = 244 then 143 else 191) then bad
                   else (case u of
                       [] \<Rightarrow> bad
                     | c # v \<Rightarrow>
                         if \<not> cont c 128 191 then bad
                         else if x < 240 then ((x mod 16) * 4096 + low6 b * 64 + low6 c, 3)
                         else (case v of
                             [] \<Rightarrow> bad
                           | d # _ \<Rightarrow>
                               if cont d 128 191
                               then ((x mod 8) * 262144 + low6 b * 4096 + low6 c * 64 + low6 d, 4)
                               else bad))))"

lemma decode_rune_width: "s \<noteq> [] \<Longrightarrow> 0 < snd (decode_rune s)"
  by (auto simp: decode_rune_def Let_def split: list.splits)

lemma decode_rune_ascii: "(of_char c :: nat) < 128 \<Longrightarrow> decode_rune (c # t) = (of_char c, 1)"
  by (simp add: decode_rune_def Let_def)

section \<open>Patterns\<close>

datatype gtok = Lit char | AnySeq | AnyOne | CClass bool "(nat \<times> nat) list"

text \<open>One end of a class range: an escaped or plain rune, not \<open>-\<close> or \<open>]\<close>; something must follow.\<close>

definition get_esc :: "string \<Rightarrow> (nat \<times> string) option" where
  "get_esc p =
     (case p of
        [] \<Rightarrow> None
      | c # t \<Rightarrow>
          if c = CHR ''-'' \<or> c = CHR '']'' then None
          else
            let q = (if c = CHR 0x5C then t else p)
            in if q = [] then None
               else
                 let (r, n) = decode_rune q
                 in if r = 65533 \<and> n = 1 then None
                    else if drop n q = [] then None
                    else Some (r, drop n q))"

text \<open>The ranges of a class after its opening; \<open>first\<close> refuses an immediate \<open>]\<close>. Fuel: bytes left.\<close>

fun get_class :: "nat \<Rightarrow> bool \<Rightarrow> string \<Rightarrow> ((nat \<times> nat) list \<times> string) option" where
  "get_class 0 first p = None"
| "get_class (Suc fuel) first p =
     (if p \<noteq> [] \<and> hd p = CHR '']'' \<and> \<not> first then Some ([], tl p)
      else (case get_esc p of
          None \<Rightarrow> None
        | Some (lo, q) \<Rightarrow>
            (case (if hd q = CHR ''-'' then get_esc (tl q) else Some (lo, q)) of
               None \<Rightarrow> None
             | Some (hi, q') \<Rightarrow>
                 (case get_class fuel False q' of
                    None \<Rightarrow> None
                  | Some (rs, r) \<Rightarrow> Some ((lo, hi) # rs, r)))))"

fun parse_glob :: "nat \<Rightarrow> string \<Rightarrow> gtok list option" where
  "parse_glob fuel [] = Some []"
| "parse_glob 0 (c # p) = None"
| "parse_glob (Suc fuel) (c # p) =
     (if c = CHR ''*'' then map_option ((#) AnySeq) (parse_glob fuel p)
      else if c = CHR ''?'' then map_option ((#) AnyOne) (parse_glob fuel p)
      else if c = CHR 0x5C then
        (case p of [] \<Rightarrow> None | d # q \<Rightarrow> map_option ((#) (Lit d)) (parse_glob fuel q))
      else if c = CHR ''['' then
        (let neg = has_prefix p ''^''
         in case get_class (Suc (length p)) True (if neg then tl p else p) of
              None \<Rightarrow> None
            | Some (rs, q) \<Rightarrow> map_option ((#) (CClass neg rs)) (parse_glob fuel q))
      else map_option ((#) (Lit c)) (parse_glob fuel p))"

fun glob_match :: "gtok list \<Rightarrow> string \<Rightarrow> bool" where
  "glob_match [] s = (s = [])"
| "glob_match (Lit c # ts) s = (case s of [] \<Rightarrow> False | x # s' \<Rightarrow> x = c \<and> glob_match ts s')"
| "glob_match (AnySeq # ts) s =
     list_ex (\<lambda>n. CHR ''/'' \<notin> set (take n s) \<and> glob_match ts (drop n s)) [0..<Suc (length s)]"
| "glob_match (AnyOne # ts) s =
     (s \<noteq> [] \<and> hd s \<noteq> CHR ''/'' \<and> glob_match ts (drop (snd (decode_rune s)) s))"
| "glob_match (CClass neg rs # ts) s =
     (s \<noteq> [] \<and>
      (let (r, n) = decode_rune s
       in (list_ex (\<lambda>(lo, hi). lo \<le> r \<and> r \<le> hi) rs \<noteq> neg) \<and> glob_match ts (drop n s)))"

definition path_match :: "string \<Rightarrow> string \<Rightarrow> bool option" where
  "path_match pat s = map_option (\<lambda>ts. glob_match ts s) (parse_glob (length pat) pat)"

definition has_meta :: "string \<Rightarrow> bool" where
  "has_meta s \<longleftrightarrow> list_ex (\<lambda>c. c \<in> {CHR ''*'', CHR ''?'', CHR ''['', CHR 0x5C}) s"

section \<open>Glob\<close>

definition split_path :: "string \<Rightarrow> string \<times> string" where
  "split_path p =
     (rev (dropWhile (\<lambda>c. c \<noteq> CHR ''/'') (rev p)), rev (takeWhile (\<lambda>c. c \<noteq> CHR ''/'') (rev p)))"

definition clean_glob_path :: "string \<Rightarrow> string" where
  "clean_glob_path d = (if d = [] then ''.'' else if d = ''/'' then d else butlast d)"

definition glob_dir :: "fs \<Rightarrow> string \<Rightarrow> string \<Rightarrow> string list" where
  "glob_dir fs dir pat =
     (case stat fs dir of
        Inr True \<Rightarrow>
          (case read_dir fs dir of
             Inl _ \<Rightarrow> []
           | Inr es \<Rightarrow> [path_join [dir, n]. n \<leftarrow> map fst es, path_match pat n = Some True])
      | _ \<Rightarrow> [])"

text \<open>The recursion of \<open>Glob\<close> is on the directory part of the pattern; fuel: its length.\<close>

fun glob_fuel :: "nat \<Rightarrow> fs \<Rightarrow> string \<Rightarrow> string list" where
  "glob_fuel 0 fs p = []"
| "glob_fuel (Suc fuel) fs p =
     (if path_match p [] = None then []
      else if \<not> has_meta p then (case stat fs p of Inl _ \<Rightarrow> [] | Inr _ \<Rightarrow> [p])
      else
        let (d, file) = split_path p; dir = clean_glob_path d
        in if \<not> has_meta dir then glob_dir fs dir file
           else if dir = p then []
           else concat (map (\<lambda>m. glob_dir fs m file) (glob_fuel fuel fs dir)))"

definition glob :: "fs \<Rightarrow> string \<Rightarrow> string list" where
  "glob fs p = glob_fuel (Suc (length p)) fs p"

section \<open>Patterns without metacharacters match themselves\<close>

lemma has_meta_Cons [simp]:
  "has_meta (c # p) \<longleftrightarrow> c = CHR ''*'' \<or> c = CHR ''?'' \<or> c = CHR ''['' \<or> c = CHR 0x5C \<or> has_meta p"
  by (auto simp: has_meta_def)

lemma has_meta_append [simp]: "has_meta (p @ q) \<longleftrightarrow> has_meta p \<or> has_meta q"
  by (auto simp: has_meta_def)

lemma has_meta_Nil [simp]: "\<not> has_meta []"
  by (simp add: has_meta_def)

lemma parse_glob_literal: "\<not> has_meta p \<Longrightarrow> length p \<le> fuel \<Longrightarrow> parse_glob fuel p = Some (map Lit p)"
proof (induction p arbitrary: fuel)
  case (Cons c p)
  then show ?case by (cases fuel) auto
qed simp

lemma glob_match_literal: "glob_match (map Lit p) s \<longleftrightarrow> s = p"
  by (induction p arbitrary: s) (auto split: list.splits)

lemma path_match_literal: "\<not> has_meta p \<Longrightarrow> path_match p s = Some (s = p)"
  by (simp add: path_match_def parse_glob_literal glob_match_literal)

lemma path_match_star: "CHR ''/'' \<notin> set s \<Longrightarrow> path_match ''*'' s = Some True"
  by (auto simp: path_match_def list_ex_iff intro!: bexI [of _ "length s"])

lemma parse_glob_literal_append:
  "\<not> has_meta p \<Longrightarrow> parse_glob (length p + fuel) (p @ q) = map_option ((@) (map Lit p)) (parse_glob fuel q)"
  by (cases "parse_glob fuel q"; induction p) auto

lemma split_path_append: "CHR ''/'' \<notin> set f \<Longrightarrow> split_path (d @ ''/'' @ f) = (d @ ''/'', f)"
  by (simp add: split_path_def takeWhile_append dropWhile_append)

end
