(* ===== verification/Events.thy ===== *)
theory Events
  imports Go_Strconv
begin

text \<open>
  The event schema (\<open>internal/events/events.go\<close>): the string types \<open>Kind\<close>, \<open>Phase\<close>,
  \<open>Action\<close> and \<open>State\<close> with their constants, the CloudEvent envelope and its data, the
  construction of subjects, types and sources, and \<open>New\<close>. The id and the time that \<open>New\<close>
  draws from the UUID generator and the clock are arguments. A time is a number of
  nanoseconds since Go's zero time, so that \<open>Time.IsZero\<close> is equality with 0.
\<close>

section \<open>The string types and their constants\<close>

type_synonym kind = string
type_synonym phase = string
type_synonym action = string
type_synonym state = string
type_synonym time = int

definition SpecVersion :: string where "SpecVersion = ''1.0''"
definition TypeNamespace :: string where "TypeNamespace = ''dev.proxmox.eventbus''"
definition DataContentType :: string where "DataContentType = ''application/json''"
definition SchemaVersion :: string where "SchemaVersion = ''1''"

definition KindQEMU :: kind where "KindQEMU = ''qemu''"
definition KindLXC :: kind where "KindLXC = ''lxc''"

definition PhaseStarted :: phase where "PhaseStarted = ''started''"
definition PhaseFinished :: phase where "PhaseFinished = ''finished''"
definition PhaseFailed :: phase where "PhaseFailed = ''failed''"
definition PhaseSnapshot :: phase where "PhaseSnapshot = ''snapshot''"
definition PhaseSynced :: phase where "PhaseSynced = ''synced''"

definition ActionStart :: action where "ActionStart = ''start''"
definition ActionStop :: action where "ActionStop = ''stop''"
definition ActionShutdown :: action where "ActionShutdown = ''shutdown''"
definition ActionReboot :: action where "ActionReboot = ''reboot''"
definition ActionReset :: action where "ActionReset = ''reset''"
definition ActionSuspend :: action where "ActionSuspend = ''suspend''"
definition ActionResume :: action where "ActionResume = ''resume''"
definition ActionMigrate :: action where "ActionMigrate = ''migrate''"
definition ActionClone :: action where "ActionClone = ''clone''"
definition ActionCreate :: action where "ActionCreate = ''create''"
definition ActionDestroy :: action where "ActionDestroy = ''destroy''"
definition ActionTemplate :: action where "ActionTemplate = ''template''"
definition ActionState :: action where "ActionState = ''state''"

definition StateRunning :: state where "StateRunning = ''running''"
definition StateStopped :: state where "StateStopped = ''stopped''"
definition StatePaused :: state where "StatePaused = ''paused''"
definition StateSuspended :: state where "StateSuspended = ''suspended''"
definition StateUnknown :: state where "StateUnknown = ''unknown''"

lemmas phase_defs = PhaseStarted_def PhaseFinished_def PhaseFailed_def PhaseSnapshot_def PhaseSynced_def
lemmas kind_defs = KindQEMU_def KindLXC_def
lemmas action_defs = ActionStart_def ActionStop_def ActionShutdown_def ActionReboot_def
  ActionReset_def ActionSuspend_def ActionResume_def ActionMigrate_def ActionClone_def
  ActionCreate_def ActionDestroy_def ActionTemplate_def ActionState_def
lemmas state_defs = StateRunning_def StateStopped_def StatePaused_def StateSuspended_def StateUnknown_def

lemma phase_distinct [simp]:
  "PhaseStarted \<noteq> PhaseFinished" "PhaseStarted \<noteq> PhaseFailed" "PhaseStarted \<noteq> PhaseSynced"
  "PhaseFinished \<noteq> PhaseStarted" "PhaseFinished \<noteq> PhaseFailed" "PhaseFinished \<noteq> PhaseSynced"
  "PhaseFailed \<noteq> PhaseStarted" "PhaseFailed \<noteq> PhaseFinished" "PhaseFailed \<noteq> PhaseSynced"
  "PhaseSynced \<noteq> PhaseStarted" "PhaseSynced \<noteq> PhaseFinished" "PhaseSynced \<noteq> PhaseFailed"
  by (simp_all add: phase_defs)

lemma kind_distinct [simp]: "KindQEMU \<noteq> KindLXC" "KindLXC \<noteq> KindQEMU"
  by (simp_all add: kind_defs)

section \<open>The envelope and its data\<close>

record event_data =
  ed_SchemaVersion :: string
  ed_Cluster :: string
  ed_Node :: string
  ed_Kind :: kind
  ed_VMID :: int
  ed_Name :: string
  ed_Tags :: "string list"
  ed_Description :: string
  ed_HookScript :: string
  ed_Action :: action
  ed_Phase :: phase
  ed_UPID :: string
  ed_User :: string
  ed_SourceNode :: string
  ed_TargetNode :: string
  ed_DurationMS :: "int option"
  ed_ExitStatus :: string
  ed_State :: state
  ed_StateDetail :: string
  ed_SnapshotID :: string
  ed_ObservedAtNS :: int
  ed_SnapshotCount :: int

record cloud_event =
  ce_SpecVersion :: string
  ce_ID :: string
  ce_Source :: string
  ce_Type :: string
  ce_Subject :: string
  ce_Time :: time
  ce_DataContentType :: string
  ce_Data :: event_data

text \<open>The zero value of the data, which a Go composite literal starts from.\<close>

definition zero_data :: event_data where
  "zero_data =
     \<lparr>ed_SchemaVersion = [], ed_Cluster = [], ed_Node = [], ed_Kind = [], ed_VMID = 0, ed_Name = [],
      ed_Tags = [], ed_Description = [], ed_HookScript = [], ed_Action = [], ed_Phase = [],
      ed_UPID = [], ed_User = [], ed_SourceNode = [], ed_TargetNode = [], ed_DurationMS = None,
      ed_ExitStatus = [], ed_State = [], ed_StateDetail = [], ed_SnapshotID = [],
      ed_ObservedAtNS = 0, ed_SnapshotCount = 0\<rparr>"

section \<open>Subjects, types and sources\<close>

definition safe_char :: "char \<Rightarrow> bool" where
  "safe_char c \<longleftrightarrow>
     char_range CHR ''a'' CHR ''z'' c \<or> char_range CHR ''A'' CHR ''Z'' c \<or>
     char_range CHR ''0'' CHR ''9'' c \<or> c = CHR ''-'' \<or> c = CHR ''_''"

definition safe :: "string \<Rightarrow> string" where
  "safe s =
     (if s = [] then ''default''
      else map (\<lambda>c. if safe_char c then c else CHR ''_'') s)"

definition SubjectLifecycle :: "string \<Rightarrow> string \<Rightarrow> kind \<Rightarrow> int \<Rightarrow> action \<Rightarrow> phase \<Rightarrow> string" where
  "SubjectLifecycle cluster node k vmid a p =
     ''pve.'' @ safe cluster @ ''.'' @ safe node @ ''.'' @ k @ ''.'' @ show_int vmid @ ''.'' @ a @ ''.'' @ p"

definition SubjectSnapshotComplete :: "string \<Rightarrow> string \<Rightarrow> string" where
  "SubjectSnapshotComplete cluster node =
     ''pve.'' @ safe cluster @ ''.'' @ safe node @ ''.snapshot.complete''"

definition SubjectSnapshotRequestCluster :: "string \<Rightarrow> string" where
  "SubjectSnapshotRequestCluster cluster = ''pve.'' @ safe cluster @ ''.snapshot.request''"

definition SubjectSnapshotRequestNode :: "string \<Rightarrow> string \<Rightarrow> string" where
  "SubjectSnapshotRequestNode cluster node =
     ''pve.'' @ safe cluster @ ''.'' @ safe node @ ''.snapshot.request''"

definition TypeFor :: "kind \<Rightarrow> action \<Rightarrow> phase \<Rightarrow> string" where
  "TypeFor k a p = TypeNamespace @ ''.'' @ k @ ''.'' @ a @ ''.'' @ p"

definition TypeSnapshotComplete :: string where
  "TypeSnapshotComplete = TypeNamespace @ ''.snapshot.complete''"

definition SourceFor :: "string \<Rightarrow> string \<Rightarrow> string" where
  "SourceFor cluster node = ''/pve/'' @ safe cluster @ ''/'' @ safe node"

definition SubjectFor :: "kind \<Rightarrow> int \<Rightarrow> string" where
  "SubjectFor k vmid = k @ ''/'' @ show_int vmid"

text \<open>\<open>New\<close>, with the UUID and the current time as its first arguments.\<close>

definition New :: "string \<Rightarrow> time \<Rightarrow> string \<Rightarrow> string \<Rightarrow> string \<Rightarrow> event_data \<Rightarrow> cloud_event" where
  "New uid now typ source subject data =
     \<lparr>ce_SpecVersion = SpecVersion, ce_ID = uid, ce_Source = source, ce_Type = typ,
      ce_Subject = subject, ce_Time = now, ce_DataContentType = DataContentType,
      ce_Data = data\<lparr>ed_SchemaVersion := SchemaVersion\<rparr>\<rparr>"

section \<open>Sanitising\<close>

lemma safe_not_Nil [simp]: "safe s \<noteq> []"
  by (simp add: safe_def)

lemma safe_chars: "list_all safe_char (safe s)"
  by (auto simp: safe_def list_all_iff safe_char_def)

lemma safe_id: "s \<noteq> [] \<Longrightarrow> list_all safe_char s \<Longrightarrow> safe s = s"
  by (auto simp: safe_def list_all_iff intro: map_idI)

lemma safe_idem: "safe (safe s) = safe s"
  by (rule safe_id) (simp_all add: safe_chars)

lemma safe_no: "\<not> safe_char c \<Longrightarrow> c \<notin> set (safe s)"
  using safe_chars by (auto simp: list_all_iff)

lemma dot_not_safe [simp]: "\<not> safe_char CHR ''.''"
  by (simp add: safe_char_def less_eq_char_def)

lemma dot_notin_safe [simp]: "CHR ''.'' \<notin> set (safe s)"
  by (simp add: safe_no)

lemma dot_notin_show_int [simp]: "CHR ''.'' \<notin> set (show_int i)"
  by (rule show_int_no) simp_all

text \<open>The tokens of the subjects, between the dots.\<close>

lemma SubjectLifecycle_join:
  "SubjectLifecycle c n k v a p = join ''.'' [''pve'', safe c, safe n, k, show_int v, a, p]"
  by (simp add: SubjectLifecycle_def)

lemma SubjectLifecycle_tokens:
  assumes "CHR ''.'' \<notin> set k" and "CHR ''.'' \<notin> set a" and "CHR ''.'' \<notin> set p"
  shows "split_on CHR ''.'' (SubjectLifecycle c n k v a p) =
    [''pve'', safe c, safe n, k, show_int v, a, p]"
  unfolding SubjectLifecycle_join by (rule split_on_join) (use assms in simp_all)

lemma SubjectSnapshotComplete_tokens:
  "split_on CHR ''.'' (SubjectSnapshotComplete c n) = [''pve'', safe c, safe n, ''snapshot'', ''complete'']"
proof -
  have "SubjectSnapshotComplete c n = join ''.'' [''pve'', safe c, safe n, ''snapshot'', ''complete'']"
    by (simp add: SubjectSnapshotComplete_def)
  then show ?thesis by (simp only:) (rule split_on_join, simp_all)
qed

lemma SubjectSnapshotRequestCluster_tokens:
  "split_on CHR ''.'' (SubjectSnapshotRequestCluster c) = [''pve'', safe c, ''snapshot'', ''request'']"
proof -
  have "SubjectSnapshotRequestCluster c = join ''.'' [''pve'', safe c, ''snapshot'', ''request'']"
    by (simp add: SubjectSnapshotRequestCluster_def)
  then show ?thesis by (simp only:) (rule split_on_join, simp_all)
qed

lemma SubjectSnapshotRequestNode_tokens:
  "split_on CHR ''.'' (SubjectSnapshotRequestNode c n) = [''pve'', safe c, safe n, ''snapshot'', ''request'']"
proof -
  have "SubjectSnapshotRequestNode c n = join ''.'' [''pve'', safe c, safe n, ''snapshot'', ''request'']"
    by (simp add: SubjectSnapshotRequestNode_def)
  then show ?thesis by (simp only:) (rule split_on_join, simp_all)
qed

lemmas subject_tokens = SubjectLifecycle_tokens SubjectSnapshotComplete_tokens
  SubjectSnapshotRequestCluster_tokens SubjectSnapshotRequestNode_tokens

lemma TypeFor_tokens:
  assumes "CHR ''.'' \<notin> set k" and "CHR ''.'' \<notin> set a" and "CHR ''.'' \<notin> set p"
  shows "split_on CHR ''.'' (TypeFor k a p) = [''dev'', ''proxmox'', ''eventbus'', k, a, p]"
proof -
  have "TypeFor k a p = join ''.'' [''dev'', ''proxmox'', ''eventbus'', k, a, p]"
    by (simp add: TypeFor_def TypeNamespace_def)
  then show ?thesis by (simp only:) (rule split_on_join, use assms in simp_all)
qed

lemma TypeSnapshotComplete_tokens:
  "split_on CHR ''.'' TypeSnapshotComplete = [''dev'', ''proxmox'', ''eventbus'', ''snapshot'', ''complete'']"
  by (simp add: TypeSnapshotComplete_def TypeNamespace_def)

section \<open>Properties\<close>

text \<open>C27: A lifecycle subject can be read back. For a kind, an action and a phase without dots, as
  all of the program's are, it is the seven tokens \<open>pve.<cluster>.<node>.<kind>.<vmid>.<action>.<phase>\<close>
  of its documentation, with cluster and node sanitised; and two subjects (with 64-bit VM ids) are
  the same only if they agree on all of these.\<close>

theorem SubjectLifecycle_decode:
  assumes "\<forall>t \<in> set [k, a, p]. CHR ''.'' \<notin> set t" and "\<forall>t \<in> set [k', a', p']. CHR ''.'' \<notin> set t"
    and "int64 v" and "int64 v'"
  shows "split_on CHR ''.'' (SubjectLifecycle c n k v a p) = [''pve'', safe c, safe n, k, show_int v, a, p] \<and>
    (SubjectLifecycle c n k v a p = SubjectLifecycle c' n' k' v' a' p' \<longleftrightarrow>
       safe c = safe c' \<and> safe n = safe n' \<and> k = k' \<and> v = v' \<and> a = a' \<and> p = p')"
proof -
  have t: "split_on CHR ''.'' (SubjectLifecycle c n k v a p) = [''pve'', safe c, safe n, k, show_int v, a, p]"
    by (rule SubjectLifecycle_tokens) (use assms(1) in simp_all)
  have t': "split_on CHR ''.'' (SubjectLifecycle c' n' k' v' a' p') =
      [''pve'', safe c', safe n', k', show_int v', a', p']"
    by (rule SubjectLifecycle_tokens) (use assms(2) in simp_all)
  have "SubjectLifecycle c n k v a p = SubjectLifecycle c' n' k' v' a' p' \<longleftrightarrow>
      [''pve'', safe c, safe n, k, show_int v, a, p] = [''pve'', safe c', safe n', k', show_int v', a', p']"
    unfolding t [symmetric] t' [symmetric] by (metis join_split_on)
  then show ?thesis unfolding t using show_int_inj [OF assms(3,4)] by simp
qed

lemma SubjectLifecycle_decode_witness:
  "SubjectLifecycle ''c'' ''n'' KindQEMU 100 ActionStart PhaseStarted \<noteq>
   SubjectLifecycle ''c'' ''n'' KindQEMU 101 ActionStart PhaseStarted"
  using SubjectLifecycle_decode [of KindQEMU ActionStart PhaseStarted KindQEMU ActionStart PhaseStarted
      100 101 "''c''" "''n''" "''c''" "''n''"]
  by (simp add: kind_defs action_defs phase_defs int64_def)

text \<open>The four families of subjects are disjoint, so that no cluster or node name, however
  chosen, turns a lifecycle event into a snapshot request or a request for the whole cluster
  into one for a node; and every token built from a name is made of the safe characters.\<close>

theorem subjects_disjoint:
  assumes "\<forall>t \<in> set [k, a, p]. CHR ''.'' \<notin> set t"
  shows "distinct [SubjectLifecycle c1 n1 k v a p, SubjectSnapshotComplete c2 n2,
      SubjectSnapshotRequestCluster c3, SubjectSnapshotRequestNode c4 n4] \<and>
    list_all safe_char (safe c1) \<and> safe c1 \<noteq> []"
proof -
  have l: "split_on CHR ''.'' (SubjectLifecycle c1 n1 k v a p) = [''pve'', safe c1, safe n1, k, show_int v, a, p]"
    by (rule SubjectLifecycle_tokens) (use assms in simp_all)
  have neq: "s \<noteq> t" if "split_on CHR ''.'' s \<noteq> split_on CHR ''.'' t" for s t
    using that by auto
  show ?thesis
    using l SubjectSnapshotComplete_tokens [of c2 n2] SubjectSnapshotRequestCluster_tokens [of c3]
      SubjectSnapshotRequestNode_tokens [of c4 n4]
    by (auto intro!: neq simp: safe_chars)
qed

lemma subjects_disjoint_witness:
  "SubjectLifecycle ''c'' ''n'' KindQEMU 100 ActionStart PhaseStarted \<noteq> SubjectSnapshotComplete ''c'' ''n''"
  using subjects_disjoint [of KindQEMU ActionStart PhaseStarted "''c''" "''n''" 100 "''c''" "''n''" "''c''" "''c''" "''n''"]
  by (simp add: kind_defs action_defs phase_defs)

end
