(* ===== verification/Upid.thy ===== *)
theory Upid
  imports Events "HOL-Library.Word"
begin

text \<open>
  The task identifiers and the lines of the task files (\<open>internal/tasks/upid.go\<close>,
  \<open>internal/tasks/workers.go\<close>): \<open>ParseUPID\<close>, \<open>ParseActiveLine\<close>, \<open>parseStatusTail\<close>,
  \<open>VMID\<close> and the table of worker types. \<open>PStart\<close> is a \<open>uint64\<close>, hence a 64-bit word; the
  signed fields are integers whose ranges are proved.
\<close>

section \<open>UPIDs\<close>

record upid =
  up_Node :: string
  up_PID :: int
  up_PStart :: "64 word"
  up_StartTime :: int
  up_Type :: string
  up_ID :: string
  up_User :: string
  up_Raw :: string

datatype upid_error =
    MissingPrefix string
  | TooFewFields nat string
  | BadPID num_error
  | BadPStart num_error
  | BadStartTime num_error

definition ParseUPID :: "string \<Rightarrow> upid_error + upid" where
  "ParseUPID s =
     (if \<not> has_prefix s ''UPID:'' then Inl (MissingPrefix s)
      else
        let body = drop (length ''UPID:'') s;
            body = trim_suffix body '':'';
            parts = split_on CHR '':'' body
        in if length parts < 7 then Inl (TooFewFields (length parts) s)
           else (case parse_int 16 32 (parts ! 1) of
               Inl e \<Rightarrow> Inl (BadPID e)
             | Inr pid \<Rightarrow> (case parse_uint 16 64 (parts ! 2) of
                   Inl e \<Rightarrow> Inl (BadPStart e)
                 | Inr pstart \<Rightarrow> (case parse_int 16 64 (parts ! 3) of
                       Inl e \<Rightarrow> Inl (BadStartTime e)
                     | Inr st \<Rightarrow>
                         Inr \<lparr>up_Node = parts ! 0, up_PID = pid, up_PStart = of_nat pstart,
                              up_StartTime = st, up_Type = parts ! 4, up_ID = parts ! 5,
                              up_User = parts ! 6, up_Raw = s\<rparr>))))"

definition VMID :: "upid \<Rightarrow> int" where
  "VMID u =
     (if up_ID u = [] then -1
      else case atoi (up_ID u) of None \<Rightarrow> -1 | Some i \<Rightarrow> i)"

section \<open>Worker types\<close>

definition workerTypes :: "(string \<times> (kind \<times> action)) list" where
  "workerTypes =
    [(''qmstart'', (KindQEMU, ActionStart)),
     (''qmstop'', (KindQEMU, ActionStop)),
     (''qmshutdown'', (KindQEMU, ActionShutdown)),
     (''qmreboot'', (KindQEMU, ActionReboot)),
     (''qmreset'', (KindQEMU, ActionReset)),
     (''qmsuspend'', (KindQEMU, ActionSuspend)),
     (''qmresume'', (KindQEMU, ActionResume)),
     (''qmigrate'', (KindQEMU, ActionMigrate)),
     (''qmclone'', (KindQEMU, ActionClone)),
     (''qmcreate'', (KindQEMU, ActionCreate)),
     (''qmdestroy'', (KindQEMU, ActionDestroy)),
     (''qmtemplate'', (KindQEMU, ActionTemplate)),
     (''vzstart'', (KindLXC, ActionStart)),
     (''vzstop'', (KindLXC, ActionStop)),
     (''vzshutdown'', (KindLXC, ActionShutdown)),
     (''vzreboot'', (KindLXC, ActionReboot)),
     (''vzsuspend'', (KindLXC, ActionSuspend)),
     (''vzresume'', (KindLXC, ActionResume)),
     (''vzmigrate'', (KindLXC, ActionMigrate)),
     (''vzclone'', (KindLXC, ActionClone)),
     (''vzcreate'', (KindLXC, ActionCreate)),
     (''vzdestroy'', (KindLXC, ActionDestroy))]"

definition WorkerTypeMap :: "string \<Rightarrow> (kind \<times> action) option" where
  "WorkerTypeMap t = map_of workerTypes t"

definition IsLifecycle :: "upid \<Rightarrow> bool" where
  "IsLifecycle u \<longleftrightarrow> WorkerTypeMap (up_Type u) \<noteq> None"

section \<open>Lines of the task files\<close>

datatype active_error = EmptyLine | BadUPID upid_error

definition isHex :: "string \<Rightarrow> bool" where
  "isHex s \<longleftrightarrow> s \<noteq> [] \<and>
     list_all (\<lambda>c. char_range CHR ''0'' CHR ''9'' c \<or> char_range CHR ''a'' CHR ''f'' c \<or>
                   char_range CHR ''A'' CHR ''F'' c) s"

definition parseStatusTail :: "string \<Rightarrow> string" where
  "parseStatusTail rest =
     (let rest = trim_space rest
      in if rest = [] \<or> rest = ''0'' then []
         else
           let fs = str_fields rest
           in if fs ! 0 = ''1'' \<and> 3 \<le> length fs \<and> isHex (fs ! 1) then join '' '' (drop 2 fs)
              else if 2 \<le> length fs \<and> isHex (fs ! 0) then join '' '' (drop 1 fs)
              else rest)"

definition ParseActiveLine :: "string \<Rightarrow> active_error + (upid \<times> string)" where
  "ParseActiveLine line =
     (let line = trim_right_set [CHR 0x0D, CHR 0x0A] line
      in if line = [] then Inl EmptyLine
         else
           let (upidStr, rest, _) = cut line CHR '' ''
           in case ParseUPID upidStr of
                Inl e \<Rightarrow> Inl (BadUPID e)
              | Inr u \<Rightarrow> Inr (u, parseStatusTail rest))"

section \<open>Parsing UPIDs\<close>

text \<open>The documented layout, with any texts for the three hexadecimal fields.\<close>

definition upid_text :: "string list \<Rightarrow> string" where
  "upid_text fs = ''UPID:'' @ join '':'' fs @ '':''"

lemma ParseUPID_text:
  assumes "list_all (\<lambda>f. CHR '':'' \<notin> set f) [n, hp, hs, ht, ty, i, us]"
    and "parse_int 16 32 hp = Inr pid" and "parse_uint 16 64 hs = Inr ps" and "parse_int 16 64 ht = Inr st"
  shows "ParseUPID (upid_text [n, hp, hs, ht, ty, i, us]) =
    Inr \<lparr>up_Node = n, up_PID = pid, up_PStart = of_nat ps, up_StartTime = st, up_Type = ty,
         up_ID = i, up_User = us, up_Raw = upid_text [n, hp, hs, ht, ty, i, us]\<rparr>"
proof -
  let ?fs = "[n, hp, hs, ht, ty, i, us]"
  have sp: "split_on CHR '':'' (join '':'' ?fs) = ?fs"
    by (rule split_on_join) (use assms(1) in simp_all)
  have "drop (length ''UPID:'') (upid_text ?fs) = join '':'' ?fs @ '':''"
    by (simp add: upid_text_def)
  then have "trim_suffix (drop (length ''UPID:'') (upid_text ?fs)) '':'' = join '':'' ?fs"
    by (simp only: trim_suffix_append)
  then show ?thesis
    using sp assms(2-4) by (simp add: ParseUPID_def upid_text_def)
qed

lemma unat_word64: "parse_uint b 64 s = Inr n \<Longrightarrow> unat (of_nat n :: 64 word) = n"
  using parse_uint_bound [of b 64 s n] by (simp add: unat_of_nat)

text \<open>What a successful parse says of its input and of the ranges of its result.\<close>

lemma ParseUPID_Inr:
  assumes "ParseUPID s = Inr u"
  shows "up_Raw u = s \<and> has_prefix s ''UPID:'' \<and>
    (\<exists>parts. parts = split_on CHR '':'' (trim_suffix (drop 5 s) '':'') \<and> 7 \<le> length parts \<and>
       up_Node u = parts ! 0 \<and> parse_int 16 32 (parts ! 1) = Inr (up_PID u) \<and>
       (\<exists>ps. parse_uint 16 64 (parts ! 2) = Inr ps \<and> up_PStart u = of_nat ps \<and> unat (up_PStart u) = ps) \<and>
       parse_int 16 64 (parts ! 3) = Inr (up_StartTime u) \<and> up_Type u = parts ! 4 \<and>
       up_ID u = parts ! 5 \<and> up_User u = parts ! 6)"
proof -
  have five: "length ''UPID:'' = 5" by simp
  show ?thesis
    using assms unfolding ParseUPID_def five
    by (auto simp: Let_def unat_word64 simp del: One_nat_def split: if_splits sum.splits)
qed

lemma ParseUPID_raw: "ParseUPID s = Inr u \<Longrightarrow> up_Raw u = s"
  by (simp add: ParseUPID_Inr)

lemma ParseUPID_ranges:
  assumes "ParseUPID s = Inr u"
  shows "- (2 ^ 31) \<le> up_PID u \<and> up_PID u < 2 ^ 31 \<and> int64 (up_StartTime u)"
proof -
  from ParseUPID_Inr [OF assms] obtain p q where
    "parse_int 16 32 p = Inr (up_PID u)" "parse_int 16 64 q = Inr (up_StartTime u)" by blast
  then show ?thesis
    using parse_int_bound [of 16 32 p] parse_int_bound [of 16 64 q] by (simp add: int64_def)
qed

lemma ParseUPID_colon_free:
  assumes "ParseUPID s = Inr u"
  shows "CHR '':'' \<notin> set (up_Node u) \<and> CHR '':'' \<notin> set (up_Type u) \<and>
    CHR '':'' \<notin> set (up_ID u) \<and> CHR '':'' \<notin> set (up_User u)"
proof -
  obtain parts where p: "parts = split_on CHR '':'' (trim_suffix (drop 5 s) '':'')" "7 \<le> length parts"
    "up_Node u = parts ! 0" "up_Type u = parts ! 4" "up_ID u = parts ! 5" "up_User u = parts ! 6"
    using ParseUPID_Inr [OF assms] by blast
  then have "\<forall>i < 7. CHR '':'' \<notin> set (parts ! i)"
    by (metis nth_mem order_less_le_trans split_on_parts)
  then show ?thesis using p by simp
qed

lemma VMID_cases: "VMID u = -1 \<or> atoi (up_ID u) = Some (VMID u)"
  by (auto simp: VMID_def split: option.splits)

lemma VMID_show: "int64 i \<Longrightarrow> up_ID u = show_int i \<Longrightarrow> VMID u = i"
  by (simp add: VMID_def atoi_show_int)

lemma VMID_int64: "int64 (VMID u)"
  using VMID_cases [of u] atoi_int64 by (auto simp: int64_def)

section \<open>Worker types\<close>

lemma WorkerTypeMap_cases:
  "WorkerTypeMap t = Some (k, a) \<Longrightarrow> (t, (k, a)) \<in> set workerTypes"
  by (simp add: WorkerTypeMap_def map_of_SomeD)

lemma workerTypes_dot_free:
  "list_all (\<lambda>(t, k, a). CHR ''.'' \<notin> set k \<and> CHR ''.'' \<notin> set a \<and> k \<noteq> [] \<and> a \<noteq> []) workerTypes"
  by (simp add: workerTypes_def kind_defs action_defs)

lemma WorkerTypeMap_dot_free:
  "WorkerTypeMap t = Some (k, a) \<Longrightarrow> CHR ''.'' \<notin> set k \<and> CHR ''.'' \<notin> set a"
  using WorkerTypeMap_cases workerTypes_dot_free by (fastforce simp: list_all_iff)

lemma WorkerTypeMap_kind: "WorkerTypeMap t = Some (k, a) \<Longrightarrow> k = KindQEMU \<or> k = KindLXC"
  using WorkerTypeMap_cases by (fastforce simp: workerTypes_def)

lemma WorkerTypeMap_migrate:
  "WorkerTypeMap t = Some (k, ActionMigrate) \<Longrightarrow>
   t = ''qmigrate'' \<and> k = KindQEMU \<or> t = ''vzmigrate'' \<and> k = KindLXC"
  using WorkerTypeMap_cases by (fastforce simp: workerTypes_def action_defs)

section \<open>The status of a line\<close>

lemma fields_aux_nonempty: "f \<in> set (fields_aux us cur) \<Longrightarrow> f \<noteq> []"
  by (induction us cur rule: fields_aux.induct) (auto split: if_splits)

lemma fields_nonempty: "f \<in> set (str_fields s) \<Longrightarrow> f \<noteq> []"
  by (simp add: str_fields_def fields_aux_nonempty)

lemma join_Nil_iff: "list_all (\<lambda>f. f \<noteq> []) fs \<Longrightarrow> join '' '' fs = [] \<longleftrightarrow> fs = []"
  by (induction fs rule: induct_list012) auto

lemma join_fields_drop_not_Nil:
  "n < length (str_fields s) \<Longrightarrow> join '' '' (drop n (str_fields s)) \<noteq> []"
  by (subst join_Nil_iff) (auto simp: list_all_iff dest: fields_nonempty in_set_dropD)

text \<open>The status is empty, the task still running, exactly if the tail is blank or \<open>0\<close>.\<close>

lemma parseStatusTail_empty:
  "parseStatusTail rest = [] \<longleftrightarrow> trim_space rest = [] \<or> trim_space rest = ''0''"
  using join_fields_drop_not_Nil [of 2 "trim_space rest"] join_fields_drop_not_Nil [of 1 "trim_space rest"]
  by (auto simp: parseStatusTail_def Let_def)

text \<open>The two forms of a finished line.\<close>

lemma parseStatusTail_fields:
  assumes "trim_space s = s" and "str_fields s = fs" and "s \<noteq> []" and "s \<noteq> ''0''"
  shows "parseStatusTail s =
    (if fs ! 0 = ''1'' \<and> 3 \<le> length fs \<and> isHex (fs ! 1) then join '' '' (drop 2 fs)
     else if 2 \<le> length fs \<and> isHex (fs ! 0) then join '' '' (drop 1 fs) else s)"
  using assms by (simp add: parseStatusTail_def Let_def)

lemma plain_digits: "plain_word ''0''" "plain_word ''1''"
  by (simp_all add: plain_word_def plain_def less_eq_char_def)

lemma plain_not_newline: "plain c \<Longrightarrow> c \<noteq> CHR 0x0D \<and> c \<noteq> CHR 0x0A"
  by (auto simp: plain_def less_eq_char_def)

lemma parseStatusTail_active:
  assumes "list_all blank_word ((b, h) # ps)" and "isHex h" and "ps \<noteq> []"
  shows "parseStatusTail (''1'' @ spaced ((b, h) # ps)) = join '' '' (map snd ps)"
proof -
  note f = parseStatusTail_fields [OF trim_space_spaced [OF plain_digits(2) assms(1)] str_fields_spaced [OF plain_digits(2) assms(1)]]
  show ?thesis using assms(2,3) by (subst f) (simp_all add: Suc_le_eq)
qed

lemma parseStatusTail_index:
  assumes "plain_word h" and "list_all blank_word ps" and "isHex h" and "h \<noteq> ''1''" and "ps \<noteq> []"
  shows "parseStatusTail (h @ spaced ps) = join '' '' (map snd ps)"
proof -
  note f = parseStatusTail_fields [OF trim_space_spaced [OF assms(1,2)] str_fields_spaced [OF assms(1,2)]]
  have "h \<noteq> []" "spaced ps \<noteq> []" using assms(1,2,5) by (cases ps; auto simp: plain_word_def blank_word_def spaced_def)+
  then have "h @ spaced ps \<noteq> []" "h @ spaced ps \<noteq> ''0''" by (auto simp: append_eq_Cons_conv)
  then show ?thesis using assms(3-5) by (simp add: f Suc_le_eq)
qed

lemma ParseActiveLine_space:
  assumes "ParseUPID u = Inr up" and "CHR '' '' \<notin> set u" and "u \<noteq> []"
    and "rest \<noteq> []" and "last rest \<noteq> CHR 0x0D" and "last rest \<noteq> CHR 0x0A"
  shows "ParseActiveLine (u @ '' '' @ rest) = Inr (up, parseStatusTail rest)"
proof -
  have "trim_right_set [CHR 0x0D, CHR 0x0A] (u @ '' '' @ rest) = u @ '' '' @ rest"
    by (rule trim_right_set_id) (use assms(4-6) in auto)
  moreover have "cut (u @ '' '' @ rest) CHR '' '' = (u, rest, True)"
    using cut_found [OF assms(2), of rest] by simp
  ultimately show ?thesis using assms(1) by (simp add: ParseActiveLine_def)
qed

lemma ParseActiveLine_plain:
  assumes "ParseUPID u = Inr up" and "CHR '' '' \<notin> set u" and "rest \<noteq> []" and "plain (last rest)"
  shows "ParseActiveLine (u @ '' '' @ rest) = Inr (up, parseStatusTail rest)"
proof (rule ParseActiveLine_space [OF assms(1,2) _ assms(3)])
  show "u \<noteq> []" using assms(1) by (auto simp: ParseUPID_def)
qed (use plain_not_newline [OF assms(4)] in auto)

lemma ParseActiveLine_bare:
  assumes "ParseUPID u = Inr up" and "CHR '' '' \<notin> set u" and "u \<noteq> []"
    and "last u \<noteq> CHR 0x0D" and "last u \<noteq> CHR 0x0A"
  shows "ParseActiveLine u = Inr (up, [])"
proof -
  have "trim_right_set [CHR 0x0D, CHR 0x0A] u = u"
    by (rule trim_right_set_id) (use assms(3-5) in auto)
  then show ?thesis
    using assms(1,3) cut_not_found [OF assms(2)] by (simp add: ParseActiveLine_def parseStatusTail_def)
qed

section \<open>A sample task\<close>

text \<open>A migration task, at which the properties of the later theories are applied.\<close>

definition sample_raw :: string where
  "sample_raw = ''UPID:pve1:0000A0B1:00C3D4E5:65A0B1C2:qmigrate:100:root@pam:''"

definition sample_upid :: upid where
  "sample_upid =
     \<lparr>up_Node = ''pve1'', up_PID = 0xA0B1, up_PStart = 0xC3D4E5, up_StartTime = 0x65A0B1C2,
      up_Type = ''qmigrate'', up_ID = ''100'', up_User = ''root@pam'', up_Raw = sample_raw\<rparr>"

lemma sample_parse: "ParseUPID sample_raw = Inr sample_upid"
  by (simp add: ParseUPID_def sample_raw_def sample_upid_def str_simps)

lemma sample_no_space: "CHR '' '' \<notin> set sample_raw" "sample_raw \<noteq> []"
  by (simp_all add: sample_raw_def)

lemma sample_line: "ParseActiveLine sample_raw = Inr (sample_upid, [])"
  by (rule ParseActiveLine_bare [OF sample_parse sample_no_space]) (simp_all add: sample_raw_def)

text \<open>The line of the active file once the task has ended.\<close>

definition sample_done :: string where
  "sample_done = sample_raw @ '' 1 65A0B1D0 OK''"

lemma sample_done_line: "ParseActiveLine sample_done = Inr (sample_upid, ''OK'')"
  using ParseActiveLine_space [OF sample_parse sample_no_space, of "''1 65A0B1D0 OK''"]
  by (simp add: sample_done_def parseStatusTail_def isHex_def str_simps)

lemma sample_fields [simp]:
  "up_Node sample_upid = ''pve1''" "up_Type sample_upid = ''qmigrate''" "up_ID sample_upid = ''100''"
  "up_StartTime sample_upid = 0x65A0B1C2" "up_User sample_upid = ''root@pam''" "up_Raw sample_upid = sample_raw"
  by (simp_all add: sample_upid_def)

lemma sample_type [simp]: "WorkerTypeMap ''qmigrate'' = Some (KindQEMU, ActionMigrate)"
  by (simp add: WorkerTypeMap_def workerTypes_def)

section \<open>The text of a task identifier\<close>

text \<open>The three numbers as PVE prints them, upper-case hexadecimal padded to eight digits.\<close>

definition upper_char :: "char \<Rightarrow> char" where
  "upper_char c =
     (if CHR ''a'' \<le> c \<and> c \<le> CHR ''z'' then char_of (of_char c - 32 :: nat) else c)"

definition hex8 :: "nat \<Rightarrow> string" where
  "hex8 n =
     (let h = map upper_char (show_base 16 n) in replicate (8 - length h) CHR ''0'' @ h)"

lemma digit_val_upper [simp]: "digit_val (upper_char c) = digit_val c"
  by (auto simp: digit_val_def upper_char_def less_eq_char_def)

lemma parse_uint_loop_upper: "parse_uint_loop b mx n (map upper_char s) = parse_uint_loop b mx n s"
  by (induction s arbitrary: n) (auto split: option.split)

lemma parse_uint_loop_zeros:
  "0 < b \<Longrightarrow> parse_uint_loop b mx 0 (replicate k CHR ''0'' @ s) = parse_uint_loop b mx 0 s"
  by (induction k) (auto simp: digit_val_def less_eq_char_def)

lemma parse_uint_hex8: "n < 2 ^ bits \<Longrightarrow> parse_uint 16 bits (hex8 n) = Inr n"
  using parse_uint_show [of 16 n bits]
  by (simp add: parse_uint_def hex8_def Let_def parse_uint_loop_zeros parse_uint_loop_upper split: if_splits)

lemma upper_digit: "d < 16 \<Longrightarrow> (of_char (upper_char (digit_char d)) :: nat) = (if d < 10 then 48 + d else 55 + d)"
  by (simp add: upper_char_def less_eq_char_def of_char_digit_char)

lemma hex8_chars:
  assumes "c \<in> set (hex8 n)"
  shows "CHR ''0'' \<le> c \<and> c \<le> CHR ''Z'' \<and> c \<noteq> CHR '':''"
proof (cases "c = CHR ''0''")
  case True
  then show ?thesis by (simp add: less_eq_char_def)
next
  case False
  then obtain c' where "c' \<in> set (show_base 16 n)" "c = upper_char c'"
    using assms by (auto simp: hex8_def Let_def)
  then obtain d where d: "d < 16" "c = upper_char (digit_char d)"
    using show_base_digits [of 16 c' n] by auto
  have "(of_char c :: nat) = (if d < 10 then 48 + d else 55 + d)"
    using d upper_digit by simp
  then have "48 \<le> (of_char c :: nat)" "(of_char c :: nat) \<le> 90" "(of_char c :: nat) \<noteq> 58"
    using d by (auto split: if_splits)
  then show ?thesis by (auto simp: less_eq_char_def)
qed

lemma hex8_not_Nil: "hex8 n \<noteq> []"
  by (simp add: hex8_def Let_def)

lemma parse_int_hex8:
  assumes "n < 2 ^ (bits - 1)"
  shows "parse_int 16 bits (hex8 n) = Inr (int n)"
proof -
  have bits: "n < 2 ^ bits"
    using assms by (rule order_less_le_trans) (simp add: power_increasing)
  obtain c t where ct: "hex8 n = c # t" using hex8_not_Nil [of n] by (cases "hex8 n") auto
  then have "CHR ''0'' \<le> c" using hex8_chars [of c n] by simp
  then have "split_sign (hex8 n) = (False, hex8 n)"
    unfolding ct by (auto simp: split_sign_def less_eq_char_def)
  then show ?thesis
    using assms bits by (simp add: parse_int_def hex8_not_Nil parse_uint_hex8)
qed

section \<open>Properties\<close>

text \<open>C6: A UPID as PVE writes it, four texts without a colon and three numbers in range in
  eight-digit hexadecimal, parses to exactly those fields and keeps its text as \<open>Raw\<close>.\<close>

theorem ParseUPID_roundtrip:
  assumes "list_all (\<lambda>f. CHR '':'' \<notin> set f) [n, ty, i, us]"
    and "pid < 2 ^ 31" and "ps < 2 ^ 64" and "st < 2 ^ 63"
  shows "let s = upid_text [n, hex8 pid, hex8 ps, hex8 st, ty, i, us]
         in ParseUPID s =
           Inr \<lparr>up_Node = n, up_PID = int pid, up_PStart = of_nat ps, up_StartTime = int st,
                up_Type = ty, up_ID = i, up_User = us, up_Raw = s\<rparr>"
proof -
  have "list_all (\<lambda>f. CHR '':'' \<notin> set f) [n, hex8 pid, hex8 ps, hex8 st, ty, i, us]"
    using assms(1) hex8_chars by auto
  moreover have "parse_int 16 32 (hex8 pid) = Inr (int pid)" "parse_int 16 64 (hex8 st) = Inr (int st)"
    "parse_uint 16 64 (hex8 ps) = Inr ps"
    using assms(2-4) by (simp_all add: parse_int_hex8 parse_uint_hex8)
  ultimately show ?thesis by (simp only: Let_def ParseUPID_text)
qed

lemma ParseUPID_roundtrip_witness:
  "ParseUPID (upid_text [''pve1'', hex8 41137, hex8 12834021, hex8 1705030082, ''qmigrate'', ''100'', ''root@pam''])
   = Inr \<lparr>up_Node = ''pve1'', up_PID = 41137, up_PStart = 12834021, up_StartTime = 1705030082,
          up_Type = ''qmigrate'', up_ID = ''100'', up_User = ''root@pam'',
          up_Raw = upid_text [''pve1'', hex8 41137, hex8 12834021, hex8 1705030082, ''qmigrate'', ''100'', ''root@pam'']\<rparr>"
  using ParseUPID_roundtrip [of "''pve1''" "''qmigrate''" "''100''" "''root@pam''" 41137 12834021 1705030082]
  by (simp add: Let_def)

text \<open>C35: Whatever text it is given, a successful parse keeps it as \<open>Raw\<close>, has an \<open>int32\<close>
  process id and an \<open>int64\<close> start time, and no colon in any of the texts it extracts; the
  text starts with the prefix and has at least seven fields.\<close>

theorem ParseUPID_sound:
  assumes "ParseUPID s = Inr u"
  shows "up_Raw u = s \<and> has_prefix s ''UPID:'' \<and> 7 \<le> count_list s CHR '':'' \<and>
    - (2 ^ 31) \<le> up_PID u \<and> up_PID u < 2 ^ 31 \<and> int64 (up_StartTime u) \<and>
    (\<forall>f \<in> set [up_Node u, up_Type u, up_ID u, up_User u]. CHR '':'' \<notin> set f)"
proof -
  obtain t where t: "s = ''UPID:'' @ t" and "7 \<le> length (split_on CHR '':'' (trim_suffix (drop 5 s) '':''))"
    using ParseUPID_Inr [OF assms] by (auto simp: has_prefix_iff)
  then have "6 \<le> count_list (trim_suffix t '':'') CHR '':''" by (simp add: length_split_on)
  also have "\<dots> \<le> count_list t CHR '':''"
    by (auto simp: trim_suffix_def has_suffix_iff)
  finally have "7 \<le> count_list s CHR '':''" using t by simp
  then show ?thesis
    using ParseUPID_Inr [OF assms] ParseUPID_ranges [OF assms] ParseUPID_colon_free [OF assms] by simp
qed

lemma ParseUPID_sound_witness:
  "up_Raw sample_upid = sample_raw \<and> int64 (up_StartTime sample_upid)"
  using ParseUPID_sound [OF sample_parse] by simp

text \<open>C34: The three layouts of a line, for a UPID of printable ASCII characters without spaces. A
  task of the active file that ended (\<open>1\<close>, hexadecimal end time, status) and a task of the index
  (end time, other than \<open>1\<close>, and status) yield the status: for one or more words of printable
  ASCII characters with any blanks between them, all its words in their order, with single
  spaces. A line that is only a UPID, or a UPID and \<open>0\<close>, yields the empty status of a running
  task.\<close>

theorem ParseActiveLine_layouts:
  assumes "ParseUPID u = Inr up" and "CHR '' '' \<notin> set u" and "list_all plain u"
    and "isHex h" and "ps \<noteq> []" and "list_all blank_word ((b, h) # ps)"
  shows "ParseActiveLine (u @ '' '' @ ''1'' @ spaced ((b, h) # ps)) = Inr (up, join '' '' (map snd ps)) \<and>
    (h \<noteq> ''1'' \<longrightarrow> ParseActiveLine (u @ '' '' @ h @ spaced ps) = Inr (up, join '' '' (map snd ps))) \<and>
    ParseActiveLine u = Inr (up, []) \<and> ParseActiveLine (u @ '' 0'') = Inr (up, [])"
proof (intro conjI impI)
  have h: "plain_word h" "list_all blank_word ps" using assms(6) by (simp_all add: blank_word_def)
  note one = last_spaced [OF plain_digits(2) assms(6)] and idx = last_spaced [OF h]
  show "ParseActiveLine (u @ '' '' @ ''1'' @ spaced ((b, h) # ps)) = Inr (up, join '' '' (map snd ps))"
    using ParseActiveLine_plain [OF assms(1,2) _ one] parseStatusTail_active [OF assms(6,4,5)] by simp
  show "ParseActiveLine (u @ '' '' @ h @ spaced ps) = Inr (up, join '' '' (map snd ps))" if "h \<noteq> ''1''"
    using ParseActiveLine_plain [OF assms(1,2) _ idx] parseStatusTail_index [OF h assms(4) that assms(5)] h(1)
    by (simp add: plain_word_def)
  have u: "u \<noteq> []" using assms(1) by (auto simp: ParseUPID_def)
  moreover from this have "plain (last u)" using assms(3) by (simp add: list_all_iff)
  ultimately show "ParseActiveLine u = Inr (up, [])"
    using plain_not_newline by (intro ParseActiveLine_bare [OF assms(1,2)]) auto
  show "ParseActiveLine (u @ '' 0'') = Inr (up, [])"
    using ParseActiveLine_plain [OF assms(1,2), of "''0''"] parseStatusTail_empty [of "''0''"]
      plain_digits(1) trim_space_plain_word [OF plain_digits(1)] by (simp add: plain_word_def)
qed

lemma ParseActiveLine_layouts_witness:
  "ParseActiveLine (sample_raw @ '' 1 65A0B1D0 job  errors'') = Inr (sample_upid, ''job errors'') \<and>
   ParseActiveLine (sample_raw @ '' 65A0B1D0 job  errors'') = Inr (sample_upid, ''job errors'') \<and>
   ParseActiveLine sample_raw = Inr (sample_upid, []) \<and>
   ParseActiveLine (sample_raw @ '' 0'') = Inr (sample_upid, [])"
  using ParseActiveLine_layouts [OF sample_parse sample_no_space(1), of "''65A0B1D0''" "[('' '', ''job''), (''  '', ''errors'')]" "'' ''"]
  by (simp add: sample_raw_def plain_def plain_word_def isHex_def blank_word_def blank_def spaced_def str_simps)

text \<open>A line is read as a running task exactly if nothing but white space or a \<open>0\<close>
  follows the first space: no status text, however odd, is mistaken for a running task.\<close>

theorem ParseActiveLine_running:
  assumes "ParseActiveLine line = Inr (u, status)"
  shows "status = [] \<longleftrightarrow>
    trim_space (fst (snd (cut (trim_right_set [CHR 0x0D, CHR 0x0A] line) CHR '' ''))) \<in> {[], ''0''}"
  using assms parseStatusTail_empty
  by (auto simp: ParseActiveLine_def Let_def split: if_splits prod.splits sum.splits)

lemma ParseActiveLine_running_witness:
  "snd (cut (trim_right_set [CHR 0x0D, CHR 0x0A] sample_raw) CHR '' '') = ([], False) \<and>
   ParseActiveLine sample_raw = Inr (sample_upid, [])"
  using ParseActiveLine_running [of sample_raw sample_upid "[]"] sample_line
  by (simp add: sample_raw_def str_simps)

end
