(* ===== verification/Logfile.thy ===== *)
theory Logfile
  imports Go_Glob Upid
begin

text \<open>
  \<open>FindLogFile\<close> (\<open>internal/tasks/logfile.go\<close>): the candidates directly under the tasks
  directory, then the glob over its subdirectories, then the walk of bounded depth. The
  file system is an argument. The function never returns an error, so that the model gives
  the path alone, empty if there is none.
\<close>

section \<open>The search\<close>

fun first_some :: "('a \<Rightarrow> 'b option) \<Rightarrow> 'a list \<Rightarrow> 'b option" where
  "first_some f [] = None"
| "first_some f (x # xs) = (case f x of None \<Rightarrow> first_some f xs | Some y \<Rightarrow> Some y)"

definition maxDepth :: nat where
  "maxDepth = 3"

text \<open>
  \<open>filepath.WalkDir\<close> with the code's callback: the entries of a directory in order; a
  directory at depth \<open>maxDepth\<close> is skipped, the first file with a matching name ends the
  walk. The number is the levels of directories still to be opened.
\<close>

fun walk_dir :: "nat \<Rightarrow> fs \<Rightarrow> string list \<Rightarrow> string \<Rightarrow> string option" where
  "walk_dir 0 fs names path = None"
| "walk_dir (Suc levels) fs names path =
     (case read_dir fs path of
        Inl _ \<Rightarrow> None
      | Inr es \<Rightarrow>
          first_some
            (\<lambda>(n, isdir).
               if isdir then walk_dir levels fs names (path_join [path, n])
               else if n \<in> set names then Some (path_join [path, n]) else None)
            es)"

definition walk_root :: "fs \<Rightarrow> string list \<Rightarrow> string \<Rightarrow> string" where
  "walk_root fs names root =
     (case stat fs root of
        Inr True \<Rightarrow> (case walk_dir (Suc maxDepth) fs names root of None \<Rightarrow> [] | Some p \<Rightarrow> p)
      | _ \<Rightarrow> [])"

definition exists_at :: "fs \<Rightarrow> string \<Rightarrow> bool" where
  "exists_at fs p \<longleftrightarrow> (case stat fs p of Inl _ \<Rightarrow> False | Inr _ \<Rightarrow> True)"

definition file_at :: "fs \<Rightarrow> string \<Rightarrow> bool" where
  "file_at fs p \<longleftrightarrow> stat fs p = Inr False"

text \<open>The first loop (the two direct candidates) and the second (the globs).\<close>

definition log_direct :: "fs \<Rightarrow> string \<Rightarrow> string list \<Rightarrow> string option" where
  "log_direct fs root names = find (exists_at fs) (map (\<lambda>n. path_join [root, n]) names)"

definition log_glob :: "fs \<Rightarrow> string \<Rightarrow> string list \<Rightarrow> string option" where
  "log_glob fs root names =
     first_some (\<lambda>n. find (file_at fs) (glob fs (path_join [root, ''*'', n]))) names"

definition FindLogFile :: "fs \<Rightarrow> string \<Rightarrow> string \<Rightarrow> string" where
  "FindLogFile fs root upidRaw =
     (if root = [] \<or> upidRaw = [] then []
      else
        let name = trim_space upidRaw
        in if name = [] then []
           else
             let names = [name, trim_suffix name '':'']
             in case log_direct fs root names of
                  Some c \<Rightarrow> c
                | None \<Rightarrow>
                    (case log_glob fs root names of
                       Some m \<Rightarrow> m
                     | None \<Rightarrow> walk_root fs names root))"

section \<open>Where the result lies\<close>

lemma first_some_Some: "first_some f xs = Some y \<Longrightarrow> \<exists>x \<in> set xs. f x = Some y"
  by (induction xs) (auto split: option.splits)

lemma find_Some_D: "find P xs = Some x \<Longrightarrow> P x \<and> x \<in> set xs"
  by (auto simp: find_Some_iff)

text \<open>Joining one clean component to a directory path puts it last.\<close>

definition base_of :: "string \<Rightarrow> string" where
  "base_of p = snd (split_path p)"

lemma clean_comps_snoc:
  "plain_comp c \<Longrightarrow> clean_comps rooted acc (cs @ [c]) = clean_comps rooted acc cs @ [c]"
proof (induction cs arbitrary: acc)
  case Nil
  then show ?case by (simp add: plain_comp_def)
next
  case (Cons d ds)
  then show ?case by auto
qed

lemma split_path_base: "CHR ''/'' \<notin> set c \<Longrightarrow> split_path c = ([], c)"
proof -
  assume "CHR ''/'' \<notin> set c"
  then have "\<forall>x \<in> set (rev c). x \<noteq> CHR ''/''" by auto
  then have "takeWhile (\<lambda>x. x \<noteq> CHR ''/'') (rev c) = rev c" "dropWhile (\<lambda>x. x \<noteq> CHR ''/'') (rev c) = []"
    by (simp_all add: takeWhile_eq_all_conv dropWhile_eq_Nil_conv)
  then show ?thesis by (simp only: split_path_def rev_rev_ident rev.simps)
qed

lemma split_path_slash: "CHR ''/'' \<notin> set c \<Longrightarrow> split_path (CHR ''/'' # c) = (''/'', c)"
  using split_path_append [of c "[]"] by simp

lemma join_snoc_not_Nil: "c \<noteq> [] \<Longrightarrow> join sep (cs @ [c]) \<noteq> []"
  by (cases "cs = []") (simp_all add: join_append)

lemma base_of_snoc:
  assumes "CHR ''/'' \<notin> set c"
  shows "base_of (join ''/'' (cs @ [c])) = c \<and> base_of (CHR ''/'' # join ''/'' (cs @ [c])) = c"
proof (cases "cs = []")
  case True
  with assms show ?thesis
    by (simp add: base_of_def split_path_base split_path_slash)
next
  case False
  with assms show ?thesis
    using split_path_append [of c "join ''/'' cs"] split_path_append [of c "CHR ''/'' # join ''/'' cs"]
    by (simp add: base_of_def join_append)
qed

text \<open>\<open>Join\<close> with a clean last component keeps it as the base, whatever comes before.\<close>

lemma path_clean_snoc:
  assumes "plain_comp c"
  shows "\<exists>cs. path_clean (d @ ''/'' @ c) = join ''/'' (cs @ [c]) \<or>
    path_clean (d @ ''/'' @ c) = CHR ''/'' # join ''/'' (cs @ [c])"
proof -
  have c: "c \<noteq> []" "CHR ''/'' \<notin> set c" using assms by (auto simp: plain_comp_def)
  have sp: "split_on CHR ''/'' (d @ ''/'' @ c) = split_on CHR ''/'' d @ [c]"
    using c(2) by (induction d) (auto simp: split_on_no_sep split: list.splits)
  define cs where "cs = clean_comps (has_prefix (d @ ''/'' @ c) ''/'') [] (split_on CHR ''/'' d)"
  have "clean_comps (has_prefix (d @ ''/'' @ c) ''/'') [] (split_on CHR ''/'' (d @ ''/'' @ c)) = cs @ [c]"
    by (simp only: sp clean_comps_snoc [OF assms] cs_def)
  then have "path_clean (d @ ''/'' @ c) = join ''/'' (cs @ [c]) \<or>
      path_clean (d @ ''/'' @ c) = CHR ''/'' # join ''/'' (cs @ [c])"
    using join_snoc_not_Nil [OF c(1), of "''/''" cs] by (simp add: path_clean_def Let_def)
  then show ?thesis by blast
qed

lemma path_clean_plain: "plain_comp c \<Longrightarrow> path_clean c = c"
proof -
  assume "plain_comp c"
  then have "c \<noteq> []" "\<not> has_prefix c ''/''" "split_on CHR ''/'' c = [c]"
    by (auto simp: plain_comp_def split_on_no_sep has_prefix_iff)
  then show ?thesis using \<open>plain_comp c\<close> by (simp add: path_clean_def plain_comp_def)
qed

lemma base_of_path_join:
  assumes "plain_comp c"
  shows "base_of (path_join [d, c]) = c"
proof (cases "d = []")
  case True
  have "CHR ''/'' \<notin> set c" "c \<noteq> []" using assms by (auto simp: plain_comp_def)
  then show ?thesis
    using True assms by (simp add: path_join_def path_clean_plain base_of_def split_path_base)
next
  case False
  then show ?thesis
    using path_clean_snoc [OF assms, of d] base_of_snoc [of c] assms
    by (auto simp: path_join_def plain_comp_def)
qed

section \<open>The walk\<close>

text \<open>The files with one of the names, by the number of directories between.\<close>

inductive logfile_at :: "fs \<Rightarrow> string list \<Rightarrow> string \<Rightarrow> nat \<Rightarrow> string \<Rightarrow> bool" for fs names where
  here: "read_dir fs dir = Inr es \<Longrightarrow> (n, False) \<in> set es \<Longrightarrow> n \<in> set names \<Longrightarrow>
     logfile_at fs names dir 0 (path_join [dir, n])"
| below: "read_dir fs dir = Inr es \<Longrightarrow> (sub, True) \<in> set es \<Longrightarrow>
     logfile_at fs names (path_join [dir, sub]) k p \<Longrightarrow> logfile_at fs names dir (Suc k) p"

inductive_cases logfile_atE: "logfile_at fs names dir k p"

lemma logfile_at_base:
  "logfile_at fs names dir k p \<Longrightarrow> \<exists>n d. n \<in> set names \<and> p = path_join [d, n]"
  by (induction rule: logfile_at.induct) auto

lemma walk_dir_sound: "walk_dir m fs names dir = Some p \<Longrightarrow> \<exists>k < m. logfile_at fs names dir k p"
proof (induction m arbitrary: dir)
  case 0
  then show ?case by simp
next
  case (Suc m)
  then obtain es where es: "read_dir fs dir = Inr es" by (auto split: sum.splits)
  with Suc.prems obtain n isdir where e: "(n, isdir) \<in> set es"
    "(if isdir then walk_dir m fs names (path_join [dir, n])
      else if n \<in> set names then Some (path_join [dir, n]) else None) = Some p"
    by (auto dest!: first_some_Some)
  show ?case
  proof (cases isdir)
    case True
    with e Suc.IH obtain k where "k < m" "logfile_at fs names (path_join [dir, n]) k p" by auto
    with es e True show ?thesis by (intro exI [of _ "Suc k"]) (auto intro: below)
  next
    case False
    with es e show ?thesis by (intro exI [of _ 0]) (auto intro: here split: if_splits)
  qed
qed

lemma first_some_exists: "x \<in> set xs \<Longrightarrow> f x \<noteq> None \<Longrightarrow> first_some f xs \<noteq> None"
  by (induction xs) (auto split: option.splits)

lemma walk_dir_complete:
  "logfile_at fs names dir k p \<Longrightarrow> k < m \<Longrightarrow> walk_dir m fs names dir \<noteq> None"
proof (induction arbitrary: m rule: logfile_at.induct)
  case (here dir es n)
  then show ?case
    by (cases m) (simp_all only: walk_dir.simps sum.case, rule first_some_exists, auto)
next
  case (below dir es sub k p)
  then obtain l where m: "m = Suc l" "k < l" by (cases m) auto
  then have "walk_dir l fs names (path_join [dir, sub]) \<noteq> None" using below.IH by blast
  then show ?case
    using below.hyps m by (simp only: walk_dir.simps sum.case) (rule first_some_exists, auto)
qed

section \<open>The result of the search\<close>

lemma glob_dir_literal:
  "\<not> has_meta n \<Longrightarrow> m \<in> set (glob_dir fs dir n) \<Longrightarrow> m = path_join [dir, n]"
  by (auto simp: glob_dir_def path_match_literal split: sum.splits bool.splits if_splits)

lemma glob_fuel_base:
  assumes "m \<in> set (glob_fuel fuel fs p)" and "has_meta p" and "snd (split_path p) = n" and "\<not> has_meta n"
  shows "\<exists>d. m = path_join [d, n]"
proof -
  obtain d f where p: "split_path p = (d, f)" by (cases "split_path p")
  then have "f = n" using assms(3) by simp
  then obtain dir where "m \<in> set (glob_dir fs dir n)"
    using assms(1,2) p by (cases fuel) (auto simp: Let_def split: if_splits)
  then show ?thesis using glob_dir_literal assms(4) by blast
qed

lemma path_clean_comps:
  assumes "s \<noteq> []" and "clean_comps (has_prefix s ''/'') [] (split_on CHR ''/'' s) = cs" and "join ''/'' cs \<noteq> []"
  shows "path_clean s = join ''/'' cs \<or> path_clean s = CHR ''/'' # join ''/'' cs"
  using assms by (simp add: path_clean_def Let_def)

text \<open>The glob pattern of the code keeps the star and ends with the name.\<close>

lemma path_join_star:
  assumes "plain_comp n"
  shows "has_meta (path_join [root, ''*'', n]) \<and> snd (split_path (path_join [root, ''*'', n])) = n"
proof -
  have star: "plain_comp ''*''" by (simp add: plain_comp_def)
  have n: "split_on CHR ''/'' n = [n]" "CHR ''/'' \<notin> set n"
    using assms by (auto simp: plain_comp_def split_on_no_sep)
  have sp: "split_on CHR ''/'' (d @ ''/*/'' @ n) = split_on CHR ''/'' d @ [''*'', n]" for d
    using n by (induction d) (auto split: list.splits)
  have cc: "clean_comps r [] (cs @ [''*'', n]) = clean_comps r [] cs @ [''*'', n]" for r cs
    using clean_comps_snoc [OF assms, of r "[]" "cs @ [''*'']"] clean_comps_snoc [OF star, of r "[]" cs] by simp
  have "\<exists>cs. path_join [root, ''*'', n] = join ''/'' (cs @ [''*'', n]) \<or>
      path_join [root, ''*'', n] = CHR ''/'' # join ''/'' (cs @ [''*'', n])"
  proof (cases "root = []")
    case True
    have "split_on CHR ''/'' (''*/'' @ n) = [] @ [''*'', n]" using n by simp
    then have "path_join [root, ''*'', n] = join ''/'' ([] @ [''*'', n])"
      using True cc [of False "[]"] by (simp add: path_join_def path_clean_def Let_def)
    then show ?thesis by blast
  next
    case False
    define s where "s = root @ ''/*/'' @ n"
    define cs where "cs = clean_comps (has_prefix s ''/'') [] (split_on CHR ''/'' root)"
    have "join ''/'' (cs @ [''*'', n]) \<noteq> []"
      using join_snoc_not_Nil [of n "''/''" "cs @ [''*'']"] assms by (simp add: plain_comp_def)
    moreover have "clean_comps (has_prefix s ''/'') [] (split_on CHR ''/'' s) = cs @ [''*'', n]"
      by (simp only: s_def sp cc cs_def)
    moreover have "s \<noteq> []" by (simp add: s_def)
    moreover have "path_join [root, ''*'', n] = path_clean s"
      using False by (simp add: path_join_def s_def)
    ultimately have "path_join [root, ''*'', n] = join ''/'' (cs @ [''*'', n]) \<or>
        path_join [root, ''*'', n] = CHR ''/'' # join ''/'' (cs @ [''*'', n])"
      using path_clean_comps by metis
    then show ?thesis by blast
  qed
  then obtain cs where cs: "path_join [root, ''*'', n] = join ''/'' (cs @ [''*'', n]) \<or>
      path_join [root, ''*'', n] = CHR ''/'' # join ''/'' (cs @ [''*'', n])" by blast
  have "has_meta (join ''/'' (cs @ [''*'', n]))"
    by (cases "cs = []") (simp_all add: join_append)
  then show ?thesis
    using cs base_of_snoc [OF n(2), of "cs @ [''*'']"] by (auto simp: base_of_def)
qed

lemma glob_star_base:
  assumes "m \<in> set (glob fs (path_join [root, ''*'', c]))" and "plain_comp c" and "\<not> has_meta c"
  shows "\<exists>d. m = path_join [d, c]"
  using path_join_star [OF assms(2), of root] glob_fuel_base [OF assms(1) [unfolded glob_def] _ _ assms(3)]
  by simp

text \<open>The three sources of a result.\<close>

abbreviation log_names :: "string \<Rightarrow> string list" where
  "log_names raw \<equiv> [trim_space raw, trim_suffix (trim_space raw) '':'']"

lemma log_direct_Some:
  "log_direct fs root names = Some p \<Longrightarrow> \<exists>c \<in> set names. p = path_join [root, c] \<and> exists_at fs p"
  by (auto simp: log_direct_def dest!: find_Some_D)

lemma log_glob_Some:
  "log_glob fs root names = Some p \<Longrightarrow>
   \<exists>c \<in> set names. p \<in> set (glob fs (path_join [root, ''*'', c])) \<and> file_at fs p"
  unfolding log_glob_def by (drule first_some_Some) (blast dest: find_Some_D)

lemma walk_root_Some:
  "walk_root fs names root = p \<Longrightarrow> p \<noteq> [] \<Longrightarrow> \<exists>k \<le> maxDepth. logfile_at fs names root k p"
  by (auto simp: walk_root_def less_Suc_eq_le simp del: walk_dir.simps
      split: sum.splits bool.splits option.splits dest!: walk_dir_sound)

lemma FindLogFile_cases:
  assumes "FindLogFile fs root raw = p" and "p \<noteq> []"
  shows "log_direct fs root (log_names raw) = Some p \<or> log_glob fs root (log_names raw) = Some p \<or>
    walk_root fs (log_names raw) root = p"
  using assms by (auto simp: FindLogFile_def Let_def split: if_splits option.splits)

section \<open>Properties\<close>

text \<open>\<open>FindLogFile\<close> never returns another task's file: whichever of its three searches
  finds a path, the last component of that path is the UPID or the UPID without its final
  colon. This rests on the UPID having no glob characters and no slash.\<close>

theorem FindLogFile_base:
  assumes "FindLogFile fs root raw = p" and "p \<noteq> []"
    and "plain_comp (trim_space raw)" and "\<not> has_meta (trim_space raw)"
    and "plain_comp (trim_suffix (trim_space raw) '':'')"
  shows "base_of p = trim_space raw \<or> base_of p = trim_suffix (trim_space raw) '':''"
proof -
  define n where "n = trim_space raw"
  define t where "t = trim_suffix n '':''"
  have pc: "plain_comp n" "plain_comp t" "\<not> has_meta n" using assms by (auto simp: n_def t_def)
  have mt: "\<not> has_meta t"
    using pc(3) by (metis append_take_drop_id has_meta_append t_def trim_suffix_def)
  have star: "p = path_join [d, c] \<Longrightarrow> c \<in> {n, t} \<Longrightarrow> base_of p = c" for d c
    using base_of_path_join pc by blast
  have "\<exists>d. \<exists>c \<in> {n, t}. p = path_join [d, c]"
    using FindLogFile_cases [OF assms(1,2), folded n_def, folded t_def]
  proof (elim disjE)
    assume "log_direct fs root [n, t] = Some p"
    from log_direct_Some [OF this] show ?thesis by auto
  next
    assume "log_glob fs root [n, t] = Some p"
    from log_glob_Some [OF this] obtain c where c: "c \<in> {n, t}" "p \<in> set (glob fs (path_join [root, ''*'', c]))"
      by auto
    then have "plain_comp c" "\<not> has_meta c" using pc mt by auto
    then obtain d where "p = path_join [d, c]" using glob_star_base [OF c(2)] by blast
    with c(1) show ?thesis by blast
  next
    assume "walk_root fs [n, t] root = p"
    from walk_root_Some [OF this assms(2)] show ?thesis using logfile_at_base by fastforce
  qed
  then show ?thesis using star unfolding n_def t_def by blast
qed

text \<open>A tasks directory with one sharded log, as PVE lays it out.\<close>

definition sample_fs :: "string \<Rightarrow> fs" where
  "sample_fs content =
     fs_of [(''/tasks'', Directory (Inr [(''2'', True), (''active'', False)])),
            (''/tasks/2'', Directory (Inr [(sample_raw, False)])),
            (''/tasks/2/'' @ sample_raw, RegFile (Inr content))]"

lemma sample_names:
  "trim_space sample_raw = sample_raw" "plain_comp sample_raw" "\<not> has_meta sample_raw"
  "plain_comp (trim_suffix sample_raw '':'')"
  by (simp_all add: sample_raw_def plain_comp_def has_meta_def str_simps)

lemma sample_at: "logfile_at (sample_fs b) [sample_raw, t] ''/tasks'' 1 (''/tasks/2/'' @ sample_raw)"
proof -
  have j: "path_join [''/tasks'', ''2''] = ''/tasks/2''"
    "path_join [''/tasks/2'', sample_raw] = ''/tasks/2/'' @ sample_raw"
    by (simp_all add: path_join_def path_clean_def sample_raw_def str_simps)
  have "logfile_at (sample_fs b) [sample_raw, t] ''/tasks/2'' 0 (path_join [''/tasks/2'', sample_raw])"
    by (rule logfile_at.here) (auto simp: read_dir_def sample_fs_def fs_of_def)
  then have "logfile_at (sample_fs b) [sample_raw, t] (path_join [''/tasks'', ''2'']) 0 (''/tasks/2/'' @ sample_raw)"
    by (simp only: j)
  then show ?thesis
    using logfile_at.below [of "sample_fs b" "''/tasks''" "[(''2'', True), (''active'', False)]" "''2''"]
    by (simp add: read_dir_def sample_fs_def fs_of_def)
qed

lemma sample_direct:
  "FindLogFile (fs_of [(''/tasks/'' @ sample_raw, RegFile b)]) ''/tasks'' sample_raw = ''/tasks/'' @ sample_raw"
  by (simp add: FindLogFile_def log_direct_def exists_at_def fs_of_def path_join_def path_clean_def
      sample_raw_def str_simps)

lemma FindLogFile_base_witness:
  "base_of (FindLogFile (fs_of [(''/tasks/'' @ sample_raw, RegFile (Inr []))]) ''/tasks'' sample_raw) = sample_raw"
proof -
  have "base_of (''/tasks/'' @ sample_raw) = sample_raw"
    by (simp add: base_of_def split_path_def sample_raw_def)
  then show ?thesis
    unfolding sample_direct
    using FindLogFile_base [OF sample_direct [of "Inr []"]] sample_names by simp
qed

text \<open>C36: A log at any depth that the bounded walk visits is found: whenever the tasks
  directory holds a file named after the task at most three directories down, the result is
  not empty, whatever the sharding scheme.\<close>

theorem FindLogFile_found:
  assumes at: "logfile_at fs [trim_space raw, trim_suffix (trim_space raw) '':''] root k p" "k \<le> maxDepth"
    and root: "root \<noteq> []" "stat fs root = Inr True"
    and name: "plain_comp (trim_space raw)" "\<not> has_meta (trim_space raw)"
      "plain_comp (trim_suffix (trim_space raw) '':'')"
  shows "FindLogFile fs root raw \<noteq> []"
proof -
  define n where "n = trim_space raw"
  define t where "t = trim_suffix n '':''"
  have pc: "plain_comp n" "plain_comp t" "\<not> has_meta n" using name by (auto simp: n_def t_def)
  have mt: "\<not> has_meta t"
    using pc(3) by (metis append_take_drop_id has_meta_append t_def trim_suffix_def)
  have ne: "path_join [d, c] \<noteq> []" if "c \<in> {n, t}" for d c
  proof
    assume "path_join [d, c] = []"
    moreover have "base_of (path_join [d, c]) = c" using that pc base_of_path_join by blast
    ultimately have "c = []" by (simp add: base_of_def split_path_def)
    then show False using that pc by (auto simp: plain_comp_def)
  qed
  have "m \<noteq> []" if "log_direct fs root [n, t] = Some m" for m
    using log_direct_Some [OF that] ne [of n] ne [of t] by fastforce
  moreover have "m \<noteq> []" if gm: "log_glob fs root [n, t] = Some m" for m
  proof -
    obtain c where c: "c \<in> {n, t}" "m \<in> set (glob fs (path_join [root, ''*'', c]))"
      using log_glob_Some [OF gm] by auto
    then have "plain_comp c" "\<not> has_meta c" using pc mt by auto
    then obtain d where "m = path_join [d, c]" using glob_star_base [OF c(2)] by blast
    with ne [OF c(1)] show ?thesis by simp
  qed
  moreover have "walk_root fs [n, t] root \<noteq> []"
  proof -
    obtain q where q: "walk_dir (Suc maxDepth) fs [n, t] root = Some q"
      using walk_dir_complete [OF at(1), of "Suc maxDepth"] at(2)
      by (auto simp: n_def t_def simp del: walk_dir.simps)
    obtain k where "logfile_at fs [n, t] root k q" using walk_dir_sound [OF q] by blast
    from logfile_at_base [OF this] obtain c d where c: "c \<in> set [n, t]" "q = path_join [d, c]" by blast
    have "c \<in> {n, t}" using c(1) by simp
    from ne [OF this] c(2) have "q \<noteq> []" by simp
    then show ?thesis using q root(2) by (simp add: walk_root_def del: walk_dir.simps)
  qed
  moreover have "raw \<noteq> []" "n \<noteq> []" using pc by (auto simp: n_def plain_comp_def)
  ultimately show ?thesis
    using root(1) unfolding FindLogFile_def n_def [symmetric] Let_def t_def [symmetric]
    by (auto split: option.split)
qed

lemma FindLogFile_found_witness:
  "FindLogFile (sample_fs []) ''/tasks'' sample_raw \<noteq> []"
proof (rule FindLogFile_found)
  show "logfile_at (sample_fs []) [trim_space sample_raw, trim_suffix (trim_space sample_raw) '':'']
      ''/tasks'' 1 (''/tasks/2/'' @ sample_raw)"
    using sample_at by (simp add: sample_names)
  show "stat (sample_fs []) ''/tasks'' = Inr True"
    by (simp add: stat_def sample_fs_def fs_of_def)
qed (simp_all add: sample_names maxDepth_def)

lemma FindLogFile_empty: "FindLogFile (fs_of []) root raw = []"
proof -
  have s: "stat (fs_of []) p = Inl NotExist" for p by (simp add: stat_def fs_of_def)
  have d: "find (exists_at (fs_of [])) xs = None" "find (file_at (fs_of [])) xs = None" for xs
    by (simp_all add: find_None_iff exists_at_def file_at_def s)
  have "log_direct (fs_of []) root ns = None" "log_glob (fs_of []) root ns = None" for ns
    by (simp add: log_direct_def d) (induction ns; simp add: log_glob_def d)
  then show ?thesis by (simp add: FindLogFile_def walk_root_def s Let_def)
qed

end
