(* ===== verification/Watcher.thy ===== *)
theory Watcher
  imports Logfile
begin

text \<open>
  The tasks watcher, one goroutine at a time (\<open>internal/tasks/watcher.go\<close>): the scan of the
  active file with its bookkeeping of the UPIDs already reported, the loop of \<open>Run\<close> with its
  debounce timer, and one iteration of the log poller of a migration. The interleaving of
  these goroutines is the theory \<open>Watcher_Sys\<close>.

  A scan is specified by a small machine per task (\<open>stage\<close>, \<open>observe\<close>): a fresh task is
  reported as started, a task with a status as finished or failed, each at most once.
\<close>

section \<open>State and events\<close>

record task_event =
  tev_UPID :: upid
  tev_Kind :: kind
  tev_Action :: action
  tev_Phase :: phase
  tev_Status :: string
  tev_ObsTime :: time

record upid_state =
  startedEmitted :: bool
  finishedEmitted :: bool
  syncedEmitted :: bool

type_synonym known = "string \<rightharpoonup> upid_state"

definition zero_state :: upid_state where
  "zero_state = \<lparr>startedEmitted = False, finishedEmitted = False, syncedEmitted = False\<rparr>"

text \<open>Reading a Go map gives the zero value for a missing key.\<close>

definition known_at :: "known \<Rightarrow> string \<Rightarrow> upid_state" where
  "known_at kn r = (case kn r of None \<Rightarrow> zero_state | Some st \<Rightarrow> st)"

text \<open>The kinds that \<open>NewWatcher\<close> puts into the \<open>include\<close> set; empty means both.\<close>

definition include_set :: "kind list \<Rightarrow> kind \<Rightarrow> bool" where
  "include_set inc k = (if inc = [] then k = KindQEMU \<or> k = KindLXC else k \<in> set inc)"

definition isOK :: "string \<Rightarrow> bool" where
  "isOK status \<longleftrightarrow> status = ''OK'' \<or> has_prefix status ''OK''"

definition raw_of :: "task_event \<Rightarrow> string" where
  "raw_of ev = up_Raw (tev_UPID ev)"

section \<open>The scan\<close>

text \<open>What the scanner does outside its critical section: send an event, start a log poller.\<close>

datatype act = Send task_event | Spawn upid

text \<open>The filters at the head of the loop body.\<close>

definition classify :: "(kind \<Rightarrow> bool) \<Rightarrow> string \<Rightarrow> (upid \<times> string \<times> kind \<times> action) option" where
  "classify inc line =
     (if line = [] then None
      else case ParseActiveLine line of
          Inl _ \<Rightarrow> None
        | Inr (u, status) \<Rightarrow>
            (case WorkerTypeMap (up_Type u) of
               None \<Rightarrow> None
             | Some (k, a) \<Rightarrow> if inc k then Some (u, status, k, a) else None))"

text \<open>The critical section: update \<open>known\<close>, decide what to emit.\<close>

definition mark :: "known \<Rightarrow> string \<Rightarrow> string \<Rightarrow> known \<times> bool \<times> bool" where
  "mark kn raw status =
     (let st = known_at kn raw;
          emitStart = (\<not> startedEmitted st);
          emitEnd = (status \<noteq> [] \<and> \<not> finishedEmitted st);
          st = (if emitStart then st\<lparr>startedEmitted := True\<rparr> else st);
          st = (if emitEnd then st\<lparr>finishedEmitted := True\<rparr> else st)
      in (kn(raw \<mapsto> st), emitStart, emitEnd))"

definition line_acts ::
    "time \<Rightarrow> upid \<Rightarrow> string \<Rightarrow> kind \<Rightarrow> action \<Rightarrow> bool \<Rightarrow> bool \<Rightarrow> act list" where
  "line_acts obs u status k a emitStart emitEnd =
     (if emitStart then
        Send \<lparr>tev_UPID = u, tev_Kind = k, tev_Action = a, tev_Phase = PhaseStarted,
              tev_Status = [], tev_ObsTime = obs\<rparr>
        # (if k = KindQEMU \<and> a = ActionMigrate then [Spawn u] else [])
      else []) @
     (if emitEnd then
        [Send \<lparr>tev_UPID = u, tev_Kind = k, tev_Action = a,
               tev_Phase = (if \<not> isOK status then PhaseFailed else PhaseFinished),
               tev_Status = status, tev_ObsTime = obs\<rparr>]
      else [])"

definition scan_line ::
    "(kind \<Rightarrow> bool) \<Rightarrow> time \<Rightarrow> string \<Rightarrow> known \<Rightarrow> string set \<Rightarrow> known \<times> string set \<times> act list" where
  "scan_line inc obs line kn seen =
     (case classify inc line of
        None \<Rightarrow> (kn, seen, [])
      | Some (u, status, k, a) \<Rightarrow>
          let (kn', emitStart, emitEnd) = mark kn (up_Raw u) status
          in (kn', insert (up_Raw u) seen, line_acts obs u status k a emitStart emitEnd))"

fun scan_loop ::
    "(kind \<Rightarrow> bool) \<Rightarrow> time \<Rightarrow> string list \<Rightarrow> known \<Rightarrow> string set \<Rightarrow> known \<times> string set \<times> act list" where
  "scan_loop inc obs [] kn seen = (kn, seen, [])"
| "scan_loop inc obs (l # ls) kn seen =
     (let (kn1, seen1, acts1) = scan_line inc obs l kn seen;
          (kn2, seen2, acts2) = scan_loop inc obs ls kn1 seen1
      in (kn2, seen2, acts1 @ acts2))"

text \<open>UPIDs that left the file after their end are forgotten.\<close>

definition gc :: "string set \<Rightarrow> known \<Rightarrow> known" where
  "gc seen kn r =
     (case kn r of
        None \<Rightarrow> None
      | Some st \<Rightarrow> if r \<notin> seen \<and> finishedEmitted st then None else Some st)"

definition scan_buffer :: nat where
  "scan_buffer = 512 * 1024"

text \<open>\<open>parseAll\<close>: the new \<open>known\<close>, the sends in order, and whether the scanner failed.\<close>

definition parseAll ::
    "(kind \<Rightarrow> bool) \<Rightarrow> time \<Rightarrow> string \<times> bool \<Rightarrow> known \<Rightarrow> known \<times> act list \<times> bool" where
  "parseAll inc obs input kn =
     (let (lines, too_long) = scan_lines scan_buffer (fst input);
          (kn', seen, acts) = scan_loop inc obs lines kn {}
      in if too_long \<or> snd input then (kn', acts, True) else (gc seen kn', acts, False))"

datatype scan_error = ScanOpen io_error | ScanRead

definition scan ::
    "(kind \<Rightarrow> bool) \<Rightarrow> time \<Rightarrow> fs \<Rightarrow> string \<Rightarrow> known \<Rightarrow> (known \<times> act list) \<times> scan_error option" where
  "scan inc obs fs activePath kn =
     (case fopen fs activePath of
        Inl e \<Rightarrow> ((kn, []), Some (ScanOpen e))
      | Inr input \<Rightarrow>
          let (kn', acts, failed) = parseAll inc obs input kn
          in ((kn', acts), if failed then Some ScanRead else None))"

section \<open>The loop of Run\<close>

datatype run_input =
    CtxDone
  | FsErrors "string option option"
  | FsEvent "(string \<times> bool) option"
  | DebounceC

datatype run_exit = ExitCtx | ExitNil | ExitInotify string | ExitScan scan_error

record run_state =
  rs_known :: known
  rs_pending :: bool
  rs_watched :: bool
  rs_sent :: "act list"

definition relevantPath :: "string \<Rightarrow> string \<Rightarrow> bool" where
  "relevantPath p activePath \<longleftrightarrow> p = activePath \<or> has_suffix p ''/active''"

text \<open>
  One round of the \<open>select\<close>. \<open>FsErrors None\<close> and \<open>FsEvent None\<close> are closed channels; an
  event carries its path and whether \<open>Create\<close> is set. \<open>rs_pending\<close> is also whether the
  debounce timer is armed, so that \<open>DebounceC\<close> only arrives when it holds. The first
  component is the reason to return, if there is one.
\<close>

fun run_step ::
    "(kind \<Rightarrow> bool) \<Rightarrow> string \<Rightarrow> fs \<Rightarrow> time \<Rightarrow> run_input \<Rightarrow> run_state \<Rightarrow> run_exit option \<times> run_state" where
  "run_step inc activePath fs obs CtxDone s = (Some ExitCtx, s)"
| "run_step inc activePath fs obs (FsErrors None) s = (Some ExitNil, s)"
| "run_step inc activePath fs obs (FsErrors (Some None)) s = (None, s)"
| "run_step inc activePath fs obs (FsErrors (Some (Some e))) s = (Some (ExitInotify e), s)"
| "run_step inc activePath fs obs (FsEvent None) s = (Some ExitNil, s)"
| "run_step inc activePath fs obs (FsEvent (Some (name, create))) s =
     (if \<not> relevantPath name activePath then (None, s)
      else
        let s = (if create \<and> name = activePath then s\<lparr>rs_watched := True\<rparr> else s);
            s = (if \<not> rs_pending s then s\<lparr>rs_pending := True\<rparr> else s)
        in (None, s))"
| "run_step inc activePath fs obs DebounceC s =
     (let s = s\<lparr>rs_pending := False\<rparr>;
          ((kn', acts), err) = scan inc obs fs activePath (rs_known s);
          s = s\<lparr>rs_known := kn', rs_sent := rs_sent s @ acts\<rparr>
      in case err of
           Some e \<Rightarrow> if e = ScanOpen NotExist then (None, s) else (Some (ExitScan e), s)
         | None \<Rightarrow> (None, s))"

text \<open>The start of \<open>Run\<close>: the initial scan, whose missing file is not an error.\<close>

definition run_start ::
    "(kind \<Rightarrow> bool) \<Rightarrow> string \<Rightarrow> fs \<Rightarrow> time \<Rightarrow> known \<Rightarrow> run_exit option \<times> run_state" where
  "run_start inc tasksDir fs obs kn =
     (let activePath = path_join [tasksDir, ''active''];
          ((kn', acts), err) = scan inc obs fs activePath kn;
          s = \<lparr>rs_known = kn', rs_pending = False, rs_watched = exists_at fs activePath, rs_sent = acts\<rparr>
      in case err of
           Some e \<Rightarrow> if e = ScanOpen NotExist then (None, s) else (Some (ExitScan e), s)
         | None \<Rightarrow> (None, s))"

section \<open>The log poller of a migration\<close>

definition migrationSyncedMarker :: string where
  "migrationSyncedMarker = ''migration status: completed''"

text \<open>The check of each tick: go on only while the task is known and not finished.\<close>

definition poll_alive :: "known \<Rightarrow> string \<Rightarrow> bool" where
  "poll_alive kn raw \<longleftrightarrow>
     (case kn raw of None \<Rightarrow> False | Some st \<Rightarrow> \<not> finishedEmitted st)"

text \<open>Finding and reading the log: the cached path, and whether the marker is in it.\<close>

definition poll_log :: "fs \<Rightarrow> string \<Rightarrow> string \<Rightarrow> string \<Rightarrow> string \<times> bool" where
  "poll_log fs tasksDir raw logFile =
     (let f = (if logFile = [] then FindLogFile fs tasksDir raw else logFile)
      in if f = [] then ([], False)
         else case read_file fs f of
             Inl _ \<Rightarrow> (f, False)
           | Inr b \<Rightarrow> (f, contains b migrationSyncedMarker))"

text \<open>The second critical section: note the report; the boolean is \<open>already\<close>.\<close>

definition poll_mark :: "known \<Rightarrow> string \<Rightarrow> known \<times> bool" where
  "poll_mark kn raw =
     (let st = known_at kn raw
      in (kn(raw \<mapsto> st\<lparr>syncedEmitted := True\<rparr>), syncedEmitted st))"

definition synced_event :: "time \<Rightarrow> upid \<Rightarrow> task_event option" where
  "synced_event now u =
     (case WorkerTypeMap (up_Type u) of
        None \<Rightarrow> None
      | Some (k, a) \<Rightarrow>
          Some \<lparr>tev_UPID = u, tev_Kind = k, tev_Action = a, tev_Phase = PhaseSynced,
                tev_Status = [], tev_ObsTime = now\<rparr>)"

section \<open>Classified lines\<close>

lemma classify_Some:
  "classify inc line = Some (u, status, k, a) \<Longrightarrow>
   ParseActiveLine line = Inr (u, status) \<and> WorkerTypeMap (up_Type u) = Some (k, a) \<and> inc k"
  by (auto simp: classify_def split: if_splits sum.splits option.splits prod.splits)

lemma scan_line_None: "classify inc l = None \<Longrightarrow> scan_line inc obs l kn seen = (kn, seen, [])"
  by (simp add: scan_line_def)

lemma scan_line_Some:
  "classify inc l = Some (u, status, k, a) \<Longrightarrow>
   scan_line inc obs l kn seen =
     (fst (mark kn (up_Raw u) status), insert (up_Raw u) seen,
      line_acts obs u status k a (fst (snd (mark kn (up_Raw u) status))) (snd (snd (mark kn (up_Raw u) status))))"
  by (simp add: scan_line_def split: prod.split)

lemma known_at_upd [simp]: "known_at (kn(r \<mapsto> st)) r' = (if r' = r then st else known_at kn r')"
  by (simp add: known_at_def)

lemma zero_state_flags [simp]:
  "\<not> startedEmitted zero_state" "\<not> finishedEmitted zero_state" "\<not> syncedEmitted zero_state"
  by (simp_all add: zero_state_def)

lemma mark_other: "r \<noteq> raw \<Longrightarrow> fst (mark kn raw status) r = kn r"
  by (simp add: mark_def Let_def)

section \<open>Tasks as machines\<close>

text \<open>The stages of a task in the watcher's bookkeeping, in their order.\<close>

datatype stage = Fresh | Running | Ended

instantiation stage :: linorder
begin

definition less_eq_stage :: "stage \<Rightarrow> stage \<Rightarrow> bool" where
  "less_eq_stage a b \<longleftrightarrow> a = Fresh \<or> b = Ended \<or> a = b"

definition less_stage :: "stage \<Rightarrow> stage \<Rightarrow> bool" where
  "less_stage a b \<longleftrightarrow> a \<le> b \<and> a \<noteq> (b :: stage)"

instance
proof
  fix x y z :: stage
  show "x < y \<longleftrightarrow> x \<le> y \<and> \<not> y \<le> x"
    by (cases x; cases y) (simp_all add: less_eq_stage_def less_stage_def)
  show "x \<le> x" by (simp add: less_eq_stage_def)
  show "x \<le> y \<Longrightarrow> y \<le> z \<Longrightarrow> x \<le> z" by (auto simp: less_eq_stage_def)
  show "x \<le> y \<Longrightarrow> y \<le> x \<Longrightarrow> x = y" by (auto simp: less_eq_stage_def)
  show "x \<le> y \<or> y \<le> x" by (cases x; cases y) (simp_all add: less_eq_stage_def)
qed

end

definition stage_of :: "upid_state \<Rightarrow> stage" where
  "stage_of st = (if finishedEmitted st then Ended else if startedEmitted st then Running else Fresh)"

text \<open>Only a started task is ever noted as finished.\<close>

definition flags_ok :: "upid_state \<Rightarrow> bool" where
  "flags_ok st \<longleftrightarrow> (finishedEmitted st \<longrightarrow> startedEmitted st)"

text \<open>
  The specification: a task at a stage, observed with a status, moves on and reports. The
  report is the phase with its status.
\<close>

definition end_phase :: "string \<Rightarrow> phase" where
  "end_phase status = (if isOK status then PhaseFinished else PhaseFailed)"

definition observe :: "stage \<Rightarrow> string \<Rightarrow> stage \<times> (phase \<times> string) list" where
  "observe s status =
     (if status = [] then max s Running else Ended,
      (if s = Fresh then [(PhaseStarted, [])] else []) @
      (if status \<noteq> [] \<and> s \<noteq> Ended then [(end_phase status, status)] else []))"

fun observe_all :: "stage \<Rightarrow> string list \<Rightarrow> stage \<times> (phase \<times> string) list" where
  "observe_all s [] = (s, [])"
| "observe_all s (x # xs) =
     (let (s1, r1) = observe s x; (s2, r2) = observe_all s1 xs in (s2, r1 @ r2))"

text \<open>The statuses with which a scan observes one task, and the reports about one task.\<close>

definition statuses_of :: "(kind \<Rightarrow> bool) \<Rightarrow> string \<Rightarrow> string list \<Rightarrow> string list" where
  "statuses_of inc r lines =
     concat (map (\<lambda>l. case classify inc l of
                        None \<Rightarrow> []
                      | Some (u, status, k, a) \<Rightarrow> if up_Raw u = r then [status] else []) lines)"

fun reports_of :: "string \<Rightarrow> act list \<Rightarrow> (phase \<times> string) list" where
  "reports_of r [] = []"
| "reports_of r (Send ev # as) =
     (if raw_of ev = r then (tev_Phase ev, tev_Status ev) # reports_of r as else reports_of r as)"
| "reports_of r (Spawn u # as) = reports_of r as"

lemma reports_of_append [simp]: "reports_of r (xs @ ys) = reports_of r xs @ reports_of r ys"
  by (induction r xs rule: reports_of.induct) auto

lemma reports_of_line:
  "reports_of r (line_acts obs u status k a es ee) =
     (if up_Raw u = r then (if es then [(PhaseStarted, [])] else []) @
        (if ee then [(end_phase status, status)] else []) else [])"
  by (auto simp: line_acts_def raw_of_def end_phase_def)

lemma max_stage [simp]: "max Fresh s = s" "max s Ended = Ended" "max Running Running = Running"
    "max Ended s = Ended"
  by (cases s; simp add: max_def less_eq_stage_def)+

lemma mark_stage:
  assumes "flags_ok (known_at kn raw)"
  shows "stage_of (known_at (fst (mark kn raw status)) raw) = fst (observe (stage_of (known_at kn raw)) status)"
    and "flags_ok (known_at (fst (mark kn raw status)) raw)"
    and "fst (snd (mark kn raw status)) \<longleftrightarrow> stage_of (known_at kn raw) = Fresh"
    and "snd (snd (mark kn raw status)) \<longleftrightarrow> status \<noteq> [] \<and> stage_of (known_at kn raw) \<noteq> Ended"
  using assms by (auto simp: mark_def Let_def stage_of_def observe_def flags_ok_def max_def less_eq_stage_def)

text \<open>One line is one observation of its task and nothing to every other task.\<close>

lemma scan_line_observe:
  assumes "flags_ok (known_at kn r)" and "scan_line inc obs l kn seen = (kn', seen', acts)"
  shows "flags_ok (known_at kn' r) \<and> seen' = seen \<union> {r. statuses_of inc r [l] \<noteq> []} \<and>
    (stage_of (known_at kn' r), reports_of r acts) =
      observe_all (stage_of (known_at kn r)) (statuses_of inc r [l])"
proof (cases "classify inc l")
  case None
  then show ?thesis
    using assms by (auto simp: scan_line_None statuses_of_def)
next
  case (Some c)
  obtain u status k a where c: "c = (u, status, k, a)" by (cases c)
  show ?thesis
  proof (cases "up_Raw u = r")
    case True
    then show ?thesis
      using assms Some c mark_stage [of kn r status]
      by (auto simp: scan_line_Some statuses_of_def reports_of_line observe_def split: if_splits)
  next
    case False
    then have "known_at (fst (mark kn (up_Raw u) status)) r = known_at kn r"
      by (simp add: known_at_def mark_other)
    then show ?thesis
      using assms Some c False
      by (auto simp: scan_line_Some statuses_of_def reports_of_line split: if_splits)
  qed
qed

lemma observe_all_append:
  "observe_all s (xs @ ys) =
     (let (s1, r1) = observe_all s xs; (s2, r2) = observe_all s1 ys in (s2, r1 @ r2))"
  by (induction xs arbitrary: s) (auto simp: Let_def split: prod.splits)

lemma statuses_of_Cons: "statuses_of inc r (l # ls) = statuses_of inc r [l] @ statuses_of inc r ls"
  by (simp add: statuses_of_def)

lemma scan_loop_observe:
  assumes "flags_ok (known_at kn r)" and "scan_loop inc obs ls kn seen = (kn', seen', acts)"
  shows "flags_ok (known_at kn' r) \<and> seen' = seen \<union> {r. statuses_of inc r ls \<noteq> []} \<and>
    (stage_of (known_at kn' r), reports_of r acts) =
      observe_all (stage_of (known_at kn r)) (statuses_of inc r ls)"
  using assms
proof (induction ls arbitrary: kn seen acts)
  case Nil
  then show ?case by (simp add: statuses_of_def)
next
  case (Cons l ls)
  obtain kn1 seen1 acts1 where 1: "scan_line inc obs l kn seen = (kn1, seen1, acts1)"
    by (cases "scan_line inc obs l kn seen")
  obtain acts2 where 2: "scan_loop inc obs ls kn1 seen1 = (kn', seen', acts2)" "acts = acts1 @ acts2"
    using Cons.prems(2) 1 by (auto split: prod.splits)
  note A = scan_line_observe [OF Cons.prems(1) 1]
  note B = Cons.IH [OF _ 2(1)]
  have s: "seen' = seen \<union> {r. statuses_of inc r (l # ls) \<noteq> []}"
    using A B by (subst statuses_of_Cons) auto
  have "(stage_of (known_at kn' r), reports_of r acts) =
      observe_all (stage_of (known_at kn r)) (statuses_of inc r [l] @ statuses_of inc r ls)"
    using A B 2(2) by (subst observe_all_append) (auto simp: Let_def split: prod.splits)
  then show ?case using A B s by (subst (2) statuses_of_Cons) simp
qed

text \<open>The task of a line.\<close>

lemma task_of_line:
  "{r. statuses_of inc r [l] \<noteq> []} =
     (case classify inc l of None \<Rightarrow> {} | Some (u, status, k, a) \<Rightarrow> {up_Raw u})"
  by (auto simp: statuses_of_def split: option.splits if_splits)

section \<open>A whole scan\<close>

lemma gc_known_at:
  "known_at (gc seen kn) r =
     (if r \<notin> seen \<and> finishedEmitted (known_at kn r) then zero_state else known_at kn r)"
  by (simp add: gc_def known_at_def split: option.split)

lemma stage_zero [simp]: "stage_of zero_state = Fresh"
  by (simp add: stage_of_def)

lemma parseAll_unfold:
  "parseAll inc obs input kn = (kn', acts, failed) \<longleftrightarrow>
   (\<exists>kn1 seen. scan_loop inc obs (fst (scan_lines scan_buffer (fst input))) kn {} = (kn1, seen, acts) \<and>
      failed = (snd (scan_lines scan_buffer (fst input)) \<or> snd input) \<and>
      kn' = (if failed then kn1 else gc seen kn1))"
  by (auto simp: parseAll_def Let_def split: prod.splits if_splits)

text \<open>
  The stage of a task after a scan: as observed, except that an ended task that is no longer
  in the file is forgotten.
\<close>

definition scan_stage :: "bool \<Rightarrow> string list \<Rightarrow> stage \<Rightarrow> stage" where
  "scan_stage failed sts s =
     (if \<not> failed \<and> sts = [] \<and> s = Ended then Fresh else fst (observe_all s sts))"

lemma observe_stage: "fst (observe s x) \<noteq> Fresh"
  by (cases s) (auto simp: observe_def max_def less_eq_stage_def)

lemma observe_all_stage: "s \<noteq> Fresh \<or> sts \<noteq> [] \<Longrightarrow> fst (observe_all s sts) \<noteq> Fresh"
proof (induction sts arbitrary: s)
  case (Cons x xs)
  then show ?case using observe_stage [of s x] by (simp add: Let_def split_beta)
qed simp

lemma stage_of_Ended: "stage_of st = Ended \<longleftrightarrow> finishedEmitted st"
  by (simp add: stage_of_def)

section \<open>Settled lines\<close>

text \<open>A line is settled when the bookkeeping already holds what it says.\<close>

definition settled :: "(kind \<Rightarrow> bool) \<Rightarrow> known \<Rightarrow> string \<Rightarrow> bool" where
  "settled inc kn l =
     (case classify inc l of
        None \<Rightarrow> True
      | Some (u, status, k, a) \<Rightarrow>
          (case kn (up_Raw u) of
             None \<Rightarrow> False
           | Some st \<Rightarrow> startedEmitted st \<and> (status \<noteq> [] \<longrightarrow> finishedEmitted st)))"

lemma settled_mono:
  assumes "settled inc kn m" and "scan_line inc obs l kn seen = (kn', seen', acts)"
  shows "settled inc kn' m"
proof (cases "classify inc l")
  case None
  then show ?thesis using assms by (simp add: scan_line_None)
next
  case (Some c)
  then show ?thesis using assms
    by (cases c) (auto simp: scan_line_Some settled_def mark_def Let_def known_at_def split: option.splits if_splits)
qed

lemma settled_line:
  assumes "scan_line inc obs l kn seen = (kn', seen', acts)"
  shows "settled inc kn' l"
proof (cases "classify inc l")
  case None
  then show ?thesis by (simp add: settled_def)
next
  case (Some c)
  then show ?thesis using assms
    by (cases c) (auto simp: scan_line_Some settled_def mark_def Let_def)
qed

lemma settled_loop:
  "scan_loop inc obs ls kn seen = (kn', seen', acts) \<Longrightarrow>
   (settled inc kn m \<longrightarrow> settled inc kn' m) \<and> (\<forall>l \<in> set ls. settled inc kn' l)"
proof (induction ls arbitrary: kn seen acts m)
  case Nil
  then show ?case by simp
next
  case (Cons l ls)
  obtain kn1 seen1 acts1 where 1: "scan_line inc obs l kn seen = (kn1, seen1, acts1)"
    by (cases "scan_line inc obs l kn seen")
  obtain acts2 where 2: "scan_loop inc obs ls kn1 seen1 = (kn', seen', acts2)"
    using Cons.prems 1 by (auto split: prod.splits)
  show ?case
    using Cons.IH [OF 2, of m] Cons.IH [OF 2, of l] settled_line [OF 1] settled_mono [OF _ 1] by auto
qed

lemma settled_silent_line:
  assumes "settled inc kn l"
  shows "scan_line inc obs l kn seen = (kn, seen \<union> {r. statuses_of inc r [l] \<noteq> []}, [])"
proof (cases "classify inc l")
  case None
  then show ?thesis by (simp add: scan_line_None statuses_of_def)
next
  case (Some c)
  obtain u status k a where c: "c = (u, status, k, a)" by (cases c)
  obtain st where st: "kn (up_Raw u) = Some st" "startedEmitted st" "status \<noteq> [] \<longrightarrow> finishedEmitted st"
    using assms Some c by (auto simp: settled_def split: option.splits)
  then have "mark kn (up_Raw u) status = (kn, False, False)"
    by (auto simp: mark_def Let_def known_at_def)
  moreover have "{r. statuses_of inc r [l] \<noteq> []} = {up_Raw u}"
    using Some c by (auto simp: statuses_of_def)
  ultimately show ?thesis
    using Some c by (simp add: scan_line_Some line_acts_def)
qed

lemma settled_silent:
  "\<forall>l \<in> set ls. settled inc kn l \<Longrightarrow>
   scan_loop inc obs ls kn seen = (kn, seen \<union> {r. statuses_of inc r ls \<noteq> []}, [])"
proof (induction ls arbitrary: seen)
  case Nil
  then show ?case by (simp add: statuses_of_def)
next
  case (Cons l ls)
  have u: "{r. statuses_of inc r (l # ls) \<noteq> []} =
      {r. statuses_of inc r [l] \<noteq> []} \<union> {r. statuses_of inc r ls \<noteq> []}"
    by (subst statuses_of_Cons) auto
  have "settled inc kn l" and rest: "\<forall>l \<in> set ls. settled inc kn l"
    using Cons.prems by auto
  then show ?case
    using settled_silent_line [of inc kn l obs seen] Cons.IH [OF rest] u by (simp add: Un_assoc)
qed

lemma gc_idem [simp]: "gc seen (gc seen kn) = gc seen kn"
  by (rule ext) (simp add: gc_def split: option.split)

lemma settled_gc:
  assumes "settled inc kn l" and "{r. statuses_of inc r [l] \<noteq> []} \<subseteq> seen"
  shows "settled inc (gc seen kn) l"
  using assms unfolding task_of_line by (auto simp: settled_def gc_def split: option.splits prod.splits)

lemma statuses_of_mem: "l \<in> set ls \<Longrightarrow> statuses_of inc r [l] \<noteq> [] \<Longrightarrow> statuses_of inc r ls \<noteq> []"
  by (auto simp: statuses_of_def)

lemma seen_loop:
  "scan_loop inc obs ls kn seen = (kn', seen', acts) \<Longrightarrow> seen' = seen \<union> {r. statuses_of inc r ls \<noteq> []}"
proof (induction ls arbitrary: kn seen acts)
  case Nil
  then show ?case by (simp add: statuses_of_def)
next
  case (Cons l ls)
  have u: "{r. statuses_of inc r (l # ls) \<noteq> []} =
      {r. statuses_of inc r [l] \<noteq> []} \<union> {r. statuses_of inc r ls \<noteq> []}"
    by (subst statuses_of_Cons) auto
  obtain kn1 seen1 acts1 where 1: "scan_line inc obs l kn seen = (kn1, seen1, acts1)"
    by (cases "scan_line inc obs l kn seen")
  have "seen1 = seen \<union> {r. statuses_of inc r [l] \<noteq> []}"
    using 1 unfolding task_of_line by (cases "classify inc l") (auto simp: scan_line_None scan_line_Some)
  moreover obtain acts2 where 2: "scan_loop inc obs ls kn1 seen1 = (kn', seen', acts2)"
    using Cons.prems 1 by (auto split: prod.splits)
  ultimately show ?case using Cons.IH [OF 2] u by (simp add: Un_assoc)
qed

section \<open>Bursts of file events\<close>

text \<open>Several rounds of the loop, each with the file system it finds; it stops at an exit.\<close>

fun run_loop ::
    "(kind \<Rightarrow> bool) \<Rightarrow> string \<Rightarrow> (fs \<times> time \<times> run_input) list \<Rightarrow> run_state \<Rightarrow> run_exit option \<times> run_state" where
  "run_loop inc activePath [] s = (None, s)"
| "run_loop inc activePath ((fs, obs, i) # is) s =
     (case run_step inc activePath fs obs i s of
        (Some e, s') \<Rightarrow> (Some e, s')
      | (None, s') \<Rightarrow> run_loop inc activePath is s')"

lemma run_step_event:
  "run_step inc p fs obs (FsEvent (Some (name, c))) s =
     (None, s\<lparr>rs_watched := rs_watched s \<or> (relevantPath name p \<and> c \<and> name = p),
              rs_pending := rs_pending s \<or> relevantPath name p\<rparr>)"
  by (cases s) (auto simp: Let_def)

lemma run_loop_events:
  "run_loop inc p (map (\<lambda>(fs, obs, ev). (fs, obs, FsEvent (Some ev))) evs @ rest) s =
   run_loop inc p rest
     (s\<lparr>rs_watched := rs_watched s \<or> (\<exists>(fs, obs, name, c) \<in> set evs. relevantPath name p \<and> c \<and> name = p),
        rs_pending := rs_pending s \<or> (\<exists>(fs, obs, name, c) \<in> set evs. relevantPath name p)\<rparr>)"
proof (induction evs arbitrary: s)
  case (Cons e evs)
  then show ?case by (cases e) (simp add: run_step_event del: run_step.simps)
qed simp

section \<open>The sample task\<close>

lemma sample_scan:
  "scan_lines scan_buffer sample_raw = ([sample_raw], False)"
  "scan_lines scan_buffer sample_done = ([sample_done], False)"
  by (simp_all add: sample_done_def sample_raw_def scan_buffer_def str_simps)

lemma sample_classify:
  "classify (\<lambda>_. True) sample_raw = Some (sample_upid, [], KindQEMU, ActionMigrate)"
  "classify (\<lambda>_. True) sample_done = Some (sample_upid, ''OK'', KindQEMU, ActionMigrate)"
  using sample_line sample_done_line sample_no_space by (simp_all add: classify_def sample_done_def)

lemma sample_statuses:
  "statuses_of (\<lambda>_. True) sample_raw [sample_raw] = [[]]"
  "statuses_of (\<lambda>_. True) sample_raw [sample_done] = [''OK'']"
  by (simp_all add: statuses_of_def sample_classify)

text \<open>A scan whose lines say nothing of a task leaves its entry alone, unless it is noted as ended.\<close>

lemma scan_loop_unlisted:
  "scan_loop inc obs ls kn seen = (kn', seen', acts) \<Longrightarrow> statuses_of inc r ls = [] \<Longrightarrow> kn' r = kn r"
proof (induction ls arbitrary: kn seen acts)
  case (Cons l ls)
  obtain kn1 seen1 acts1 where l: "scan_line inc obs l kn seen = (kn1, seen1, acts1)" by (rule prod_cases3)
  have st: "statuses_of inc r [l] = []" "statuses_of inc r ls = []"
    using Cons.prems(2) by (simp_all add: statuses_of_Cons [of inc r l ls])
  have "kn1 r = kn r"
  proof (cases "classify inc l")
    case None
    then show ?thesis using l by (simp add: scan_line_def)
  next
    case (Some x)
    obtain u status k a where x: "x = (u, status, k, a)" by (rule prod_cases4)
    then have "r \<noteq> up_Raw u" using st(1) Some by (auto simp: statuses_of_def)
    then have "fst (mark kn (up_Raw u) status) r = kn r" by (rule mark_other)
    then show ?thesis using l Some x by (auto simp: scan_line_def split: prod.splits)
  qed
  moreover have "kn' r = kn1 r"
    using Cons.IH [OF _ st(2)] Cons.prems(1) l by (auto split: prod.splits)
  ultimately show ?case by simp
qed simp

lemma parseAll_unlisted:
  assumes "statuses_of inc r (fst (scan_lines scan_buffer (fst input))) = []"
    and "kn r = Some st" and "\<not> finishedEmitted st"
  shows "fst (parseAll inc obs input kn) r = Some st"
proof -
  obtain kn1 seen acts where l: "scan_loop inc obs (fst (scan_lines scan_buffer (fst input))) kn {} = (kn1, seen, acts)"
    by (rule prod_cases3)
  then show ?thesis
    using scan_loop_unlisted [OF l assms(1)] assms(2,3) by (auto simp: parseAll_def gc_def Let_def split_beta)
qed

section \<open>Properties\<close>

text \<open>C3: One pass of \<open>parseAll\<close> over the active file moves every task exactly as the
  stage machine says, and sends exactly the machine's reports about it: started the first time
  the task is listed, finished or failed the first time it is listed with a status, in that
  order and never twice. A task that has ended and is no longer listed is forgotten unless the
  scanner failed.\<close>

theorem parseAll_observes:
  assumes "flags_ok (known_at kn r)"
  shows "let (kn', acts, failed) = parseAll inc obs input kn;
             sts = statuses_of inc r (fst (scan_lines scan_buffer (fst input)))
         in reports_of r acts = snd (observe_all (stage_of (known_at kn r)) sts) \<and>
            stage_of (known_at kn' r) = scan_stage failed sts (stage_of (known_at kn r)) \<and>
            flags_ok (known_at kn' r)"
proof -
  obtain kn' acts failed where p: "parseAll inc obs input kn = (kn', acts, failed)"
    by (cases "parseAll inc obs input kn")
  define ls where "ls = fst (scan_lines scan_buffer (fst input))"
  obtain kn1 seen where l: "scan_loop inc obs ls kn {} = (kn1, seen, acts)"
    and k: "kn' = (if failed then kn1 else gc seen kn1)"
    using p unfolding parseAll_unfold ls_def by auto
  note o = scan_loop_observe [OF assms l]
  define sts where "sts = statuses_of inc r ls"
  define s0 where "s0 = stage_of (known_at kn r)"
  have seen: "r \<in> seen \<longleftrightarrow> sts \<noteq> []" using o by (simp add: sts_def)
  have s1: "stage_of (known_at kn1 r) = fst (observe_all s0 sts)"
    and r1: "reports_of r acts = snd (observe_all s0 sts)"
    and f1: "flags_ok (known_at kn1 r)"
    using o by (auto simp: sts_def s0_def dest: sym)
  have "stage_of (known_at kn' r) = scan_stage failed sts s0"
    using s1 seen by (auto simp: k gc_known_at scan_stage_def stage_of_Ended [symmetric])
  moreover have "flags_ok (known_at kn' r)"
    using f1 by (simp add: k gc_known_at flags_ok_def)
  ultimately show ?thesis
    using r1 unfolding p ls_def [symmetric] sts_def s0_def by (simp add: Let_def)
qed

lemma parseAll_observes_witness:
  "reports_of sample_raw (fst (snd (parseAll (\<lambda>_. True) 5 (sample_done, False) Map.empty))) =
   [(PhaseStarted, []), (PhaseFinished, ''OK'')]"
  using parseAll_observes [of Map.empty sample_raw "\<lambda>_. True" 5 "(sample_done, False)"]
  by (simp add: flags_ok_def known_at_def sample_scan sample_statuses observe_def end_phase_def
      isOK_def Let_def split: prod.splits)

text \<open>A second pass over an unchanged active file sends nothing, starts no poller and
  leaves the bookkeeping as it is, so rewriting the file without news causes no event.\<close>

theorem parseAll_rescan_silent:
  assumes "parseAll inc obs (content, False) kn = (kn1, acts, False)"
  shows "parseAll inc obs' (content, False) kn1 = (kn1, [], False)"
proof -
  define ls where "ls = fst (scan_lines scan_buffer content)"
  obtain kn0 seen where l: "scan_loop inc obs ls kn {} = (kn0, seen, acts)"
    and k: "kn1 = gc seen kn0" and f: "\<not> snd (scan_lines scan_buffer content)"
    using assms unfolding parseAll_unfold ls_def by auto
  have seen: "seen = {r. statuses_of inc r ls \<noteq> []}" using seen_loop [OF l] by simp
  have "\<forall>l \<in> set ls. settled inc kn1 l"
    using settled_loop [OF l] seen unfolding k
    by (auto intro!: settled_gc dest: statuses_of_mem)
  from settled_silent [OF this, of obs' "{}"]
  have "scan_loop inc obs' ls kn1 {} = (kn1, seen, [])" using seen by simp
  then show ?thesis unfolding parseAll_unfold using f k ls_def by auto
qed

lemma parseAll_rescan_silent_witness:
  "\<exists>kn acts. parseAll (\<lambda>_. True) 5 (sample_done, False) Map.empty = (kn, acts, False) \<and>
     length acts = 3 \<and> parseAll (\<lambda>_. True) 6 (sample_done, False) kn = (kn, [], False)"
proof -
  have "parseAll (\<lambda>_. True) 5 (sample_done, False) Map.empty =
    (\<lambda>kn. (gc {sample_raw} kn, line_acts 5 sample_upid ''OK'' KindQEMU ActionMigrate True True, False))
      (fst (mark Map.empty sample_raw ''OK''))"
    by (simp add: parseAll_def sample_scan scan_line_def sample_classify mark_def known_at_def Let_def)
  from this parseAll_rescan_silent [OF this [simplified], of 6] show ?thesis
    by (simp add: line_acts_def)
qed

text \<open>A burst of file events costs one scan: however many arrive before the timer
  fires, none of them scans or ends the loop, and the timer's single scan reads the file as it
  is then, starting from the bookkeeping before the burst.\<close>

theorem run_burst:
  "run_loop inc p (map (\<lambda>(fs, obs, ev). (fs, obs, FsEvent (Some ev))) evs @ [(fs, obs, DebounceC)]) s =
   (let s' = s\<lparr>rs_watched := rs_watched s \<or>
                 (\<exists>(fs, obs, name, c) \<in> set evs. relevantPath name p \<and> c \<and> name = p)\<rparr>;
        ((kn', acts), err) = scan inc obs fs p (rs_known s)
    in (case err of
          None \<Rightarrow> None
        | Some e \<Rightarrow> if e = ScanOpen NotExist then None else Some (ExitScan e),
        s'\<lparr>rs_pending := False, rs_known := kn', rs_sent := rs_sent s @ acts\<rparr>))"
  unfolding run_loop_events by (simp add: Let_def split_beta split: option.split)

end
