(* ===== verification/Reach.thy ===== *)
theory Reach
  imports Main
begin

text \<open>
  Reachable states of a system given by its initial states and its steps, and the interface
  of an invariant: a predicate that holds initially and is kept by every step. The
  concurrent components instantiate it with their own step relations. A relative invariant
  is kept by the steps from states that satisfy another invariant; the two together are an
  invariant again.
\<close>

inductive reach :: "('s \<Rightarrow> bool) \<Rightarrow> ('s \<Rightarrow> 's \<Rightarrow> bool) \<Rightarrow> 's \<Rightarrow> bool" for init step where
  reach_init: "init s \<Longrightarrow> reach init step s"
| reach_step: "reach init step s \<Longrightarrow> step s t \<Longrightarrow> reach init step t"

locale invariant =
  fixes init :: "'s \<Rightarrow> bool"
    and step :: "'s \<Rightarrow> 's \<Rightarrow> bool"
    and inv :: "'s \<Rightarrow> bool"
  assumes inv_init: "init s \<Longrightarrow> inv s"
    and inv_step: "inv s \<Longrightarrow> step s t \<Longrightarrow> inv t"
begin

lemma reachable_inv: "reach init step s \<Longrightarrow> inv s"
  by (induction rule: reach.induct) (auto intro: inv_init inv_step)

end

locale relative_invariant = base: invariant init step base
  for init :: "'s \<Rightarrow> bool" and step :: "'s \<Rightarrow> 's \<Rightarrow> bool" and base :: "'s \<Rightarrow> bool" +
  fixes inv :: "'s \<Rightarrow> bool"
  assumes rel_init: "init s \<Longrightarrow> inv s"
    and rel_step: "base s \<Longrightarrow> inv s \<Longrightarrow> step s t \<Longrightarrow> inv t"

sublocale relative_invariant \<subseteq> both: invariant init step "\<lambda>s. base s \<and> inv s"
  by unfold_locales (auto intro: base.inv_init base.inv_step rel_init rel_step)

context relative_invariant
begin

lemma reachable_rel: "reach init step s \<Longrightarrow> inv s"
  using both.reachable_inv by blast

end

text \<open>Steps from a reachable state stay among the reachable states.\<close>

lemma reach_steps: "reach init step s \<Longrightarrow> step\<^sup>*\<^sup>* s t \<Longrightarrow> reach init step t"
  by (rotate_tac, induction rule: rtranclp_induct) (auto intro: reach_step)

end
