(* ===== verification/Watcher_Sys.thy ===== *)
theory Watcher_Sys
  imports Watcher Reach
begin

text \<open>
  The tasks watcher as its goroutines run together (\<open>internal/tasks/watcher.go\<close>): the scanner
  of \<open>Run\<close>, one log poller per started QEMU migration, the map \<open>known\<close> they share under the
  mutex, and the channel of 256 events they send on. A step is what one goroutine does
  between two points where another may run: a critical section, one send, one receive. The
  active file, the logs and the clock may have any content at any step, so that the model
  allows every schedule and every file.
\<close>

section \<open>The system\<close>

text \<open>
  The scanner sleeps in its \<open>select\<close>, or is inside \<open>parseAll\<close>: the observation time, the
  lines left, whether the reader will fail, the UPIDs seen, and what the current line still
  has to send or start.
\<close>

datatype scanner =
    Idle
  | Scanning (sc_obs: time) (sc_lines: "string list") (sc_fail: bool) (sc_seen: "string set") (sc_acts: "act list")
  | Stopped

datatype poll_pc = Tick | ReadLog | MarkSync | SendSync task_event | Done

record poller =
  po_upid :: upid
  po_log :: string
  po_pc :: poll_pc

record sys =
  sy_known :: known
  sy_chan :: "task_event list"
  sy_out :: "task_event list"
  sy_scan :: scanner
  sy_pollers :: "poller list"

definition chan_cap :: nat where
  "chan_cap = 256"

definition winit :: "sys \<Rightarrow> bool" where
  "winit s \<longleftrightarrow> s = \<lparr>sy_known = Map.empty, sy_chan = [], sy_out = [], sy_scan = Idle, sy_pollers = []\<rparr>"

definition at_pc :: "sys \<Rightarrow> nat \<Rightarrow> poll_pc \<Rightarrow> bool" where
  "at_pc s i pc \<longleftrightarrow> i < length (sy_pollers s) \<and> po_pc (sy_pollers s ! i) = pc"

definition raw_at :: "sys \<Rightarrow> nat \<Rightarrow> string" where
  "raw_at s i = up_Raw (po_upid (sy_pollers s ! i))"

definition set_poller :: "nat \<Rightarrow> (poller \<Rightarrow> poller) \<Rightarrow> sys \<Rightarrow> sys" where
  "set_poller i g s = s\<lparr>sy_pollers := (sy_pollers s)[i := g (sy_pollers s ! i)]\<rparr>"

abbreviation set_pc :: "nat \<Rightarrow> poll_pc \<Rightarrow> sys \<Rightarrow> sys" where
  "set_pc i pc \<equiv> set_poller i (\<lambda>p. p\<lparr>po_pc := pc\<rparr>)"

inductive wstep :: "(kind \<Rightarrow> bool) \<Rightarrow> string \<Rightarrow> sys \<Rightarrow> sys \<Rightarrow> bool" for inc dir where
  scan_start:
    "sy_scan s = Idle \<Longrightarrow> fopen fs (path_join [dir, ''active'']) = Inr (content, failed) \<Longrightarrow>
     scan_lines scan_buffer content = (lines, too_long) \<Longrightarrow>
     wstep inc dir s (s\<lparr>sy_scan := Scanning obs lines (too_long \<or> failed) {} []\<rparr>)"
| scan_open:
    "sy_scan s = Idle \<Longrightarrow> fopen fs (path_join [dir, ''active'']) = Inl e \<Longrightarrow>
     wstep inc dir s (s\<lparr>sy_scan := (if e = NotExist then Idle else Stopped)\<rparr>)"
| scan_line:
    "sy_scan s = Scanning obs (l # ls) f seen [] \<Longrightarrow>
     scan_line inc obs l (sy_known s) seen = (kn', seen', acts) \<Longrightarrow>
     wstep inc dir s (s\<lparr>sy_known := kn', sy_scan := Scanning obs ls f seen' acts\<rparr>)"
| scan_send:
    "sy_scan s = Scanning obs ls f seen (Send ev # acts) \<Longrightarrow> length (sy_chan s) < chan_cap \<Longrightarrow>
     wstep inc dir s (s\<lparr>sy_chan := sy_chan s @ [ev], sy_scan := Scanning obs ls f seen acts\<rparr>)"
| scan_spawn:
    "sy_scan s = Scanning obs ls f seen (Spawn u # acts) \<Longrightarrow>
     wstep inc dir s
       (s\<lparr>sy_pollers := sy_pollers s @ [\<lparr>po_upid = u, po_log = [], po_pc = Tick\<rparr>],
          sy_scan := Scanning obs ls f seen acts\<rparr>)"
| scan_end:
    "sy_scan s = Scanning obs [] False seen [] \<Longrightarrow>
     wstep inc dir s (s\<lparr>sy_known := gc seen (sy_known s), sy_scan := Idle\<rparr>)"
| scan_fail:
    "sy_scan s = Scanning obs [] True seen [] \<Longrightarrow> wstep inc dir s (s\<lparr>sy_scan := Stopped\<rparr>)"
| run_cancel: "sy_scan s = Idle \<Longrightarrow> wstep inc dir s (s\<lparr>sy_scan := Stopped\<rparr>)"
| recv:
    "sy_chan s = ev # evs \<Longrightarrow> wstep inc dir s (s\<lparr>sy_chan := evs, sy_out := sy_out s @ [ev]\<rparr>)"
| poll_tick:
    "at_pc s i Tick \<Longrightarrow>
     wstep inc dir s (set_pc i (if poll_alive (sy_known s) (raw_at s i) then ReadLog else Done) s)"
| poll_cancel: "at_pc s i Tick \<Longrightarrow> wstep inc dir s (set_pc i Done s)"
| poll_read:
    "at_pc s i ReadLog \<Longrightarrow> poll_log fs dir (raw_at s i) (po_log (sy_pollers s ! i)) = (f, found) \<Longrightarrow>
     wstep inc dir s
       (set_poller i (\<lambda>p. p\<lparr>po_log := f, po_pc := (if found then MarkSync else Tick)\<rparr>) s)"
| poll_marks:
    "at_pc s i MarkSync \<Longrightarrow> poll_mark (sy_known s) (raw_at s i) = (kn', already) \<Longrightarrow>
     wstep inc dir s
       (set_pc i (if already then Done
                  else case synced_event now (po_upid (sy_pollers s ! i)) of
                         None \<Rightarrow> Done | Some ev \<Rightarrow> SendSync ev)
         (s\<lparr>sy_known := kn'\<rparr>))"
| poll_send:
    "at_pc s i (SendSync ev) \<Longrightarrow> length (sy_chan s) < chan_cap \<Longrightarrow>
     wstep inc dir s (set_pc i Done (s\<lparr>sy_chan := sy_chan s @ [ev]\<rparr>))"

inductive_cases wstepE: "wstep inc dir s t"

section \<open>What has been sent\<close>

definition sends :: "act list \<Rightarrow> task_event list" where
  "sends as = concat (map (\<lambda>a. case a of Send ev \<Rightarrow> [ev] | Spawn _ \<Rightarrow> []) as)"

fun acts_of :: "scanner \<Rightarrow> act list" where
  "acts_of (Scanning obs ls f seen acts) = acts"
| "acts_of Idle = []"
| "acts_of Stopped = []"

text \<open>The events sent on the channel, in order, and those the scanner has decided to send.\<close>

definition sent :: "sys \<Rightarrow> task_event list" where
  "sent s = sy_out s @ sy_chan s"

definition hist :: "sys \<Rightarrow> task_event list" where
  "hist s = sent s @ sends (acts_of (sy_scan s))"

lemma sends_simps [simp]:
  "sends [] = []" "sends (Send ev # as) = ev # sends as" "sends (Spawn u # as) = sends as"
  "sends (as @ bs) = sends as @ sends bs"
  by (simp_all add: sends_def)

lemma set_poller_simps [simp]:
  "sy_known (set_poller i g s) = sy_known s" "sy_chan (set_poller i g s) = sy_chan s"
  "sy_out (set_poller i g s) = sy_out s" "sy_scan (set_poller i g s) = sy_scan s"
  "sy_pollers (set_poller i g s) = (sy_pollers s)[i := g (sy_pollers s ! i)]"
  by (simp_all add: set_poller_def)

text \<open>The channel never holds more than its capacity.\<close>

definition chan_inv :: "sys \<Rightarrow> bool" where
  "chan_inv s \<longleftrightarrow> length (sy_chan s) \<le> chan_cap"

interpretation chan: invariant winit "wstep inc dir" chan_inv for inc dir
proof
  fix s t
  show "winit s \<Longrightarrow> chan_inv s" by (simp add: winit_def chan_inv_def)
  assume inv: "chan_inv s" and step: "wstep inc dir s t"
  from step inv show "chan_inv t"
    by (cases rule: wstep.cases) (auto simp: chan_inv_def)
qed

section \<open>Bookkeeping\<close>

definition flags_inv :: "sys \<Rightarrow> bool" where
  "flags_inv s \<longleftrightarrow> (\<forall>r. flags_ok (known_at (sy_known s) r))"

lemma flags_ok_gc: "flags_ok (known_at kn r) \<Longrightarrow> flags_ok (known_at (gc seen kn) r)"
  by (simp add: gc_known_at flags_ok_def)

lemma poll_mark_stage:
  "poll_mark kn raw = (kn', already) \<Longrightarrow>
   stage_of (known_at kn' r) = stage_of (known_at kn r) \<and>
   (flags_ok (known_at kn r) \<longrightarrow> flags_ok (known_at kn' r))"
  by (cases "r = raw") (auto simp: poll_mark_def Let_def stage_of_def flags_ok_def)

interpretation flags: invariant winit "wstep inc dir" flags_inv for inc dir
proof
  fix s t
  show "winit s \<Longrightarrow> flags_inv s" by (simp add: winit_def flags_inv_def known_at_def flags_ok_def)
  assume inv: "flags_inv s" and step: "wstep inc dir s t"
  from step inv show "flags_inv t"
    by (cases rule: wstep.cases)
      (auto simp: flags_inv_def flags_ok_gc dest: poll_mark_stage scan_line_observe)
qed

section \<open>The events sent\<close>

text \<open>
  A well-formed event: its UPID is what its raw text parses to, kind and action are those of
  the UPID's type, and the phase goes with the status. Only QEMU migrations are reported as
  synced.
\<close>

definition ev_ok :: "(kind \<Rightarrow> bool) \<Rightarrow> task_event \<Rightarrow> bool" where
  "ev_ok inc ev \<longleftrightarrow>
     ParseUPID (raw_of ev) = Inr (tev_UPID ev) \<and> inc (tev_Kind ev) \<and>
     WorkerTypeMap (up_Type (tev_UPID ev)) = Some (tev_Kind ev, tev_Action ev) \<and>
     (tev_Phase ev = PhaseStarted \<and> tev_Status ev = [] \<or>
      tev_Phase ev = end_phase (tev_Status ev) \<and> tev_Status ev \<noteq> [] \<or>
      tev_Phase ev = PhaseSynced \<and> tev_Status ev = [] \<and>
        tev_Kind ev = KindQEMU \<and> tev_Action ev = ActionMigrate)"

definition migration :: "(kind \<Rightarrow> bool) \<Rightarrow> upid \<Rightarrow> bool" where
  "migration inc u \<longleftrightarrow>
     ParseUPID (up_Raw u) = Inr u \<and> inc KindQEMU \<and>
     WorkerTypeMap (up_Type u) = Some (KindQEMU, ActionMigrate)"

definition poller_ok :: "(kind \<Rightarrow> bool) \<Rightarrow> poller \<Rightarrow> bool" where
  "poller_ok inc p \<longleftrightarrow>
     migration inc (po_upid p) \<and>
     (\<forall>ev. po_pc p = SendSync ev \<longrightarrow>
        ev_ok inc ev \<and> tev_Phase ev = PhaseSynced \<and> tev_UPID ev = po_upid p)"

definition act_ok :: "(kind \<Rightarrow> bool) \<Rightarrow> act \<Rightarrow> bool" where
  "act_ok inc a =
     (case a of Send ev \<Rightarrow> ev_ok inc ev \<and> tev_Phase ev \<noteq> PhaseSynced | Spawn u \<Rightarrow> migration inc u)"

definition events_inv :: "(kind \<Rightarrow> bool) \<Rightarrow> sys \<Rightarrow> bool" where
  "events_inv inc s \<longleftrightarrow>
     list_all (ev_ok inc) (sent s) \<and> list_all (act_ok inc) (acts_of (sy_scan s)) \<and>
     list_all (poller_ok inc) (sy_pollers s)"

lemma end_phase_not_synced [simp]: "end_phase st \<noteq> PhaseSynced" "end_phase st \<noteq> PhaseStarted"
  "PhaseSynced \<noteq> end_phase st" "PhaseStarted \<noteq> end_phase st"
  by (simp_all add: end_phase_def)

lemma ParseActiveLine_upid: "ParseActiveLine l = Inr (u, status) \<Longrightarrow> ParseUPID (up_Raw u) = Inr u"
  by (auto simp: ParseActiveLine_def Let_def ParseUPID_raw split: if_splits sum.splits prod.splits)

lemma scan_line_act_ok:
  assumes "scan_line inc obs l kn seen = (kn', seen', acts)"
  shows "list_all (act_ok inc) acts"
proof (cases "classify inc l")
  case None
  then show ?thesis using assms by (simp add: scan_line_None)
next
  case (Some c)
  obtain u status k a where c: "c = (u, status, k, a)" by (cases c)
  note C = classify_Some [OF Some [unfolded c]]
  have "ParseUPID (up_Raw u) = Inr u" using C ParseActiveLine_upid by blast
  then have "list_all (act_ok inc) (line_acts obs u status k a es (status \<noteq> [] \<and> e))" for es e
    using C by (auto simp: line_acts_def act_ok_def ev_ok_def migration_def raw_of_def end_phase_def)
  moreover obtain kn1 es e where "mark kn (up_Raw u) status = (kn1, es, status \<noteq> [] \<and> e)"
    by (simp add: mark_def Let_def)
  ultimately show ?thesis
    using assms Some c by (auto simp: scan_line_Some)
qed

lemma synced_event_ok:
  "migration inc u \<Longrightarrow> synced_event now u = Some ev \<Longrightarrow>
   ev_ok inc ev \<and> tev_Phase ev = PhaseSynced \<and> tev_UPID ev = u"
  by (auto simp: synced_event_def migration_def ev_ok_def raw_of_def)

text \<open>Changing one poller.\<close>

lemma pollers_ok_upd:
  assumes "list_all (poller_ok inc) ps" and "i < length ps" and "po_upid (g (ps ! i)) = po_upid (ps ! i)"
    and "\<forall>ev. po_pc (g (ps ! i)) = SendSync ev \<longrightarrow>
      ev_ok inc ev \<and> tev_Phase ev = PhaseSynced \<and> tev_UPID ev = po_upid (ps ! i)"
  shows "list_all (poller_ok inc) (ps[i := g (ps ! i)])"
  using assms by (simp add: list_all_length nth_list_update poller_ok_def)

lemma poller_at:
  assumes "events_inv inc s" and "at_pc s i pc"
  shows "migration inc (po_upid (sy_pollers s ! i)) \<and>
    (\<forall>ev. pc = SendSync ev \<longrightarrow> ev_ok inc ev \<and> tev_Phase ev = PhaseSynced \<and> raw_of ev = raw_at s i)"
proof -
  have "poller_ok inc (sy_pollers s ! i)"
    using assms by (simp add: events_inv_def at_pc_def list_all_length)
  then show ?thesis using assms(2) by (simp add: poller_ok_def at_pc_def raw_of_def raw_at_def)
qed

interpretation events: invariant winit "wstep inc dir" "events_inv inc" for inc dir
proof
  fix s t
  show "winit s \<Longrightarrow> events_inv inc s" by (simp add: winit_def events_inv_def sent_def)
  assume inv: "events_inv inc s" and step: "wstep inc dir s t"
  note simps = events_inv_def sent_def at_pc_def
  from step show "events_inv inc t"
  proof (cases rule: wstep.cases)
    case (scan_line obs l ls f seen kn' seen' acts)
    then show ?thesis using inv scan_line_act_ok by (simp add: simps)
  next
    case (poll_marks i kn' already now)
    have m: "migration inc (po_upid (sy_pollers s ! i))"
      using poller_at [OF inv poll_marks(2)] by blast
    show ?thesis using inv poll_marks
      by (auto simp: simps intro!: pollers_ok_upd dest: synced_event_ok [OF m] split: option.splits)
  next
    case (poll_send i ev)
    then have "ev_ok inc ev" using poller_at [OF inv poll_send(2)] by blast
    then show ?thesis using inv poll_send by (auto simp: simps intro!: pollers_ok_upd)
  next
    case (poll_read i fs f found)
    then show ?thesis using inv by (auto simp: simps intro!: pollers_ok_upd)
  next
    case (poll_tick i)
    then show ?thesis using inv by (auto simp: simps intro!: pollers_ok_upd)
  next
    case (poll_cancel i)
    then show ?thesis using inv by (auto simp: simps intro!: pollers_ok_upd)
  qed (use inv in \<open>auto simp: simps act_ok_def poller_ok_def split: if_splits\<close>)
qed

section \<open>Every end has a start\<close>

text \<open>
  The life of a task as its consumers see it: started while it is not running, finished or
  failed while it is running. The result says whether it is running, \<open>None\<close> is a sequence
  that no task lives through.
\<close>

fun life :: "bool \<Rightarrow> phase list \<Rightarrow> bool option" where
  "life b [] = Some b"
| "life b (p # ps) = (if (p = PhaseStarted) = b then None else life (\<not> b) ps)"

text \<open>The phases sent about one task, without the non-terminal \<open>synced\<close>.\<close>

definition lifeline :: "string \<Rightarrow> task_event list \<Rightarrow> phase list" where
  "lifeline r evs = map tev_Phase (filter (\<lambda>ev. raw_of ev = r \<and> tev_Phase ev \<noteq> PhaseSynced) evs)"

lemma life_append: "life b (xs @ ys) = (case life b xs of None \<Rightarrow> None | Some b' \<Rightarrow> life b' ys)"
  by (induction xs arbitrary: b) auto

lemma lifeline_simps [simp]:
  "lifeline r [] = []" "lifeline r (xs @ ys) = lifeline r xs @ lifeline r ys"
  "lifeline r (ev # evs) =
     (if raw_of ev = r \<and> tev_Phase ev \<noteq> PhaseSynced then tev_Phase ev # lifeline r evs else lifeline r evs)"
  by (simp_all add: lifeline_def)

lemma lifeline_reports:
  "list_all (act_ok inc) as \<Longrightarrow> lifeline r (sends as) = map fst (reports_of r as)"
  by (induction r as rule: reports_of.induct) (auto simp: act_ok_def)

text \<open>The stage machine lives a life.\<close>

lemma life_observe: "life (s = Running) (map fst (snd (observe s x))) = Some (fst (observe s x) = Running)"
  by (cases s) (auto simp: observe_def max_def less_eq_stage_def end_phase_def phase_defs)

lemma life_observe_all:
  "life (s = Running) (map fst (snd (observe_all s xs))) = Some (fst (observe_all s xs) = Running)"
proof (induction xs arbitrary: s)
  case (Cons x xs)
  then show ?case by (simp add: Let_def split_beta life_append life_observe)
qed simp

definition life_inv :: "sys \<Rightarrow> bool" where
  "life_inv s \<longleftrightarrow>
     (\<forall>r. life False (lifeline r (hist s)) = Some (stage_of (known_at (sy_known s) r) = Running))"

definition base_inv :: "(kind \<Rightarrow> bool) \<Rightarrow> sys \<Rightarrow> bool" where
  "base_inv inc s \<longleftrightarrow> flags_inv s \<and> events_inv inc s"

interpretation wbase: invariant winit "wstep inc dir" "base_inv inc" for inc dir
  by unfold_locales
    (auto simp: base_inv_def intro: flags.inv_init flags.inv_step events.inv_init events.inv_step)

lemma stage_gc: "stage_of (known_at (gc seen kn) r) = Running \<longleftrightarrow> stage_of (known_at kn r) = Running"
  by (auto simp: gc_known_at stage_of_def)

lemma life_scan_line:
  assumes "flags_ok (known_at kn r)" and "scan_line inc obs l kn seen = (kn', seen', acts)"
    and "life False ph = Some (stage_of (known_at kn r) = Running)"
  shows "life False (ph @ lifeline r (sends acts)) = Some (stage_of (known_at kn' r) = Running)"
proof -
  have "(stage_of (known_at kn' r), reports_of r acts) =
      observe_all (stage_of (known_at kn r)) (statuses_of inc r [l])"
    using scan_line_observe [OF assms(1,2)] by blast
  then show ?thesis
    using assms(3) life_observe_all [of "stage_of (known_at kn r)" "statuses_of inc r [l]"]
    by (simp add: life_append lifeline_reports [OF scan_line_act_ok [OF assms(2)]] split_pairs)
qed

interpretation lives: relative_invariant winit "wstep inc dir" "base_inv inc" life_inv for inc dir
proof
  fix s t
  show "winit s \<Longrightarrow> life_inv s" by (simp add: winit_def life_inv_def hist_def sent_def known_at_def)
  assume base: "base_inv inc s" and inv: "life_inv s" and step: "wstep inc dir s t"
  note simps = life_inv_def hist_def sent_def
  from step show "life_inv t"
  proof (cases rule: wstep.cases)
    case (scan_line obs l ls f seen kn' seen' acts)
    then show ?thesis
      using base inv life_scan_line [of "sy_known s" _ inc obs l seen kn' seen' acts]
      by (simp add: simps base_inv_def flags_inv_def append_assoc [symmetric] del: append_assoc)
  next
    case (poll_marks i kn' already now)
    then show ?thesis using inv poll_mark_stage [of "sy_known s" "raw_at s i" kn' already] by (simp add: simps)
  next
    case (poll_send i ev)
    then have "tev_Phase ev = PhaseSynced"
      using base poller_at [of inc s i "SendSync ev"] by (simp add: base_inv_def)
    then show ?thesis using inv poll_send by (simp add: simps)
  qed (use inv in \<open>auto simp: simps stage_gc\<close>)
qed

section \<open>At most one synced per start\<close>

definition sent_phase :: "phase \<Rightarrow> string \<Rightarrow> task_event list \<Rightarrow> nat" where
  "sent_phase p r evs = length (filter (\<lambda>ev. raw_of ev = r \<and> tev_Phase ev = p) evs)"

text \<open>The pollers of a task that have not returned, and those about to be started.\<close>

definition is_live :: "string \<Rightarrow> poller \<Rightarrow> nat" where
  "is_live r p = (if up_Raw (po_upid p) = r \<and> po_pc p \<noteq> Done then 1 else 0)"

definition live :: "string \<Rightarrow> poller list \<Rightarrow> nat" where
  "live r ps = sum_list (map (is_live r) ps)"

definition spawns :: "string \<Rightarrow> act list \<Rightarrow> nat" where
  "spawns r as = length (filter (\<lambda>a. case a of Send _ \<Rightarrow> False | Spawn u \<Rightarrow> up_Raw u = r) as)"

definition startless :: "act list \<Rightarrow> bool" where
  "startless as \<longleftrightarrow> list_all (\<lambda>ev. tev_Phase ev \<noteq> PhaseStarted) (sends as)"

lemma sent_phase_simps [simp]:
  "sent_phase p r [] = 0" "sent_phase p r (xs @ ys) = sent_phase p r xs + sent_phase p r ys"
  "sent_phase p r (ev # evs) = (if raw_of ev = r \<and> tev_Phase ev = p then Suc (sent_phase p r evs) else sent_phase p r evs)"
  by (simp_all add: sent_phase_def)

lemma live_simps [simp]:
  "live r [] = 0" "live r (ps @ qs) = live r ps + live r qs"
  "live r (p # ps) = is_live r p + live r ps"
  by (simp_all add: live_def)

lemma spawns_simps [simp]:
  "spawns r [] = 0" "spawns r (Send ev # as) = spawns r as"
  "spawns r (Spawn u # as) = (if up_Raw u = r then Suc (spawns r as) else spawns r as)"
  "spawns r (as @ bs) = spawns r as + spawns r bs"
  by (simp_all add: spawns_def)

lemma live_update:
  "i < length ps \<Longrightarrow> live r (ps[i := p]) + is_live r (ps ! i) = live r ps + is_live r p"
  by (induction ps arbitrary: i) (auto split: nat.split)

text \<open>Every synced event and every poller goes back to its own started event.\<close>

definition sync_inv :: "sys \<Rightarrow> bool" where
  "sync_inv s \<longleftrightarrow>
     startless (tl (acts_of (sy_scan s))) \<and>
     (\<forall>r. sent_phase PhaseSynced r (sent s) + live r (sy_pollers s) \<le> sent_phase PhaseStarted r (sent s) \<and>
          sent_phase PhaseSynced r (sent s) + live r (sy_pollers s) + spawns r (acts_of (sy_scan s))
            \<le> sent_phase PhaseStarted r (hist s))"

lemma startless_started: "startless as \<Longrightarrow> sent_phase PhaseStarted r (sends as) = 0"
  by (auto simp: startless_def sent_phase_def list_all_iff filter_empty_conv)

lemma startless_tl: "startless as \<Longrightarrow> startless (tl as)"
  by (cases as rule: list.exhaust; cases "hd as") (auto simp: startless_def)

lemma line_acts_spawns:
  "startless (tl (line_acts obs u status k a es ee)) \<and>
   spawns r (line_acts obs u status k a es ee) \<le> sent_phase PhaseStarted r (sends (line_acts obs u status k a es ee))"
  by (auto simp: line_acts_def startless_def raw_of_def end_phase_def)

lemma scan_line_spawns:
  assumes "scan_line inc obs l kn seen = (kn', seen', acts)"
  shows "startless (tl acts) \<and> spawns r acts \<le> sent_phase PhaseStarted r (sends acts)"
proof (cases "classify inc l")
  case None
  then show ?thesis using assms by (auto simp: scan_line_None startless_def)
next
  case (Some c)
  then show ?thesis using assms line_acts_spawns
    by (cases c) (auto simp: scan_line_Some)
qed

lemma live_upd:
  assumes "at_pc s i pc" and "pc \<noteq> Done" and "po_upid p = po_upid (sy_pollers s ! i)"
  shows "live r ((sy_pollers s)[i := p]) + (if raw_at s i = r then 1 else 0) =
    live r (sy_pollers s) + (if raw_at s i = r \<and> po_pc p \<noteq> Done then 1 else 0)"
  using assms live_update [of i "sy_pollers s" r p]
  by (auto simp: at_pc_def is_live_def raw_at_def split: if_splits)

lemma live_le:
  assumes "at_pc s i pc" and "pc \<noteq> Done" and "po_upid p = po_upid (sy_pollers s ! i)"
  shows "live r ((sy_pollers s)[i := p]) \<le> live r (sy_pollers s)"
  using live_upd [OF assms, of r] by (simp split: if_splits)

lemma sync_inv_poller:
  assumes "sync_inv s" and "sy_scan t = sy_scan s"
    and "\<And>r. sent_phase PhaseStarted r (sent t) = sent_phase PhaseStarted r (sent s)"
    and "\<And>r. sent_phase PhaseSynced r (sent t) + live r (sy_pollers t)
           \<le> sent_phase PhaseSynced r (sent s) + live r (sy_pollers s)"
  shows "sync_inv t"
  unfolding sync_inv_def
proof (intro conjI allI)
  show "startless (tl (acts_of (sy_scan t)))" using assms(1,2) by (simp add: sync_inv_def)
  fix r
  have "sent_phase PhaseSynced r (sent s) + live r (sy_pollers s) \<le> sent_phase PhaseStarted r (sent s)"
    "sent_phase PhaseSynced r (sent s) + live r (sy_pollers s) + spawns r (acts_of (sy_scan s))
       \<le> sent_phase PhaseStarted r (hist s)"
    using assms(1) by (simp_all add: sync_inv_def)
  moreover have "sent_phase PhaseStarted r (hist t) = sent_phase PhaseStarted r (hist s)"
    using assms(2,3) by (simp add: hist_def)
  ultimately show "sent_phase PhaseSynced r (sent t) + live r (sy_pollers t) \<le> sent_phase PhaseStarted r (sent t)"
    "sent_phase PhaseSynced r (sent t) + live r (sy_pollers t) + spawns r (acts_of (sy_scan t))
       \<le> sent_phase PhaseStarted r (hist t)"
    using assms(3,4) [of r] unfolding assms(2) by linarith+
qed

interpretation syncs: relative_invariant winit "wstep inc dir" "base_inv inc" sync_inv for inc dir
proof
  fix s t
  show "winit s \<Longrightarrow> sync_inv s"
    by (simp add: winit_def sync_inv_def hist_def sent_def startless_def)
  assume base: "base_inv inc s" and inv: "sync_inv s" and step: "wstep inc dir s t"
  note simps = sync_inv_def hist_def sent_def
  note poller = sync_inv_poller [OF inv]
  from step show "sync_inv t"
  proof (cases rule: wstep.cases)
    case (scan_line obs l ls f seen kn' seen' acts)
    have "spawns r acts \<le> sent_phase PhaseStarted r (sends acts)" "startless (tl acts)" for r
      using scan_line_spawns [OF scan_line(3)] by blast+
    then show ?thesis
      using inv scan_line(1,2) by (simp add: simps add_le_mono add.assoc [symmetric])
  next
    case (scan_send obs ls f seen ev acts)
    then have "tev_Phase ev \<noteq> PhaseSynced"
      using base by (simp add: base_inv_def events_inv_def act_ok_def)
    then show ?thesis using inv scan_send startless_tl [of acts] by (simp add: simps le_SucI)
  next
    case (scan_spawn obs ls f seen u acts)
    then have sl: "startless acts" using inv by (simp add: simps)
    have B: "sent_phase PhaseSynced r (sent s) + live r (sy_pollers s) + spawns r (Spawn u # acts)
        \<le> sent_phase PhaseStarted r (sent s)" for r
      using inv [unfolded sync_inv_def, THEN conjunct2, THEN spec [of _ r]] scan_spawn(2)
        startless_started [OF sl, of r] by (simp add: hist_def split: if_splits)
    have T: "sent_phase PhaseSynced r (sent t) + live r (sy_pollers t) + spawns r acts
        \<le> sent_phase PhaseStarted r (sent t)" for r
      using B [of r] unfolding scan_spawn(1) by (simp add: sent_def is_live_def split: if_splits)
    have acts: "acts_of (sy_scan t) = acts" by (simp add: scan_spawn(1))
    show ?thesis unfolding sync_inv_def acts
    proof (intro conjI allI)
      fix r
      show "sent_phase PhaseSynced r (sent t) + live r (sy_pollers t) \<le> sent_phase PhaseStarted r (sent t)"
        by (rule add_leD1 [OF T])
      have "sent_phase PhaseStarted r (hist t) = sent_phase PhaseStarted r (sent t)"
        by (simp add: hist_def acts startless_started [OF sl])
      then show "sent_phase PhaseSynced r (sent t) + live r (sy_pollers t) + spawns r acts
          \<le> sent_phase PhaseStarted r (hist t)"
        using T [of r] by linarith
    qed (rule startless_tl [OF sl])
  next
    case (poll_send i ev)
    then have "tev_Phase ev = PhaseSynced" "raw_of ev = raw_at s i"
      using base poller_at [of inc s i "SendSync ev"] by (simp_all add: base_inv_def)
    then have ph: "sent_phase PhaseSynced r (sent t) = sent_phase PhaseSynced r (sent s) + (if raw_at s i = r then 1 else 0)"
      "sent_phase PhaseStarted r (sent t) = sent_phase PhaseStarted r (sent s)" for r
      by (simp_all add: poll_send(1) sent_def)
    show ?thesis
    proof (rule poller)
      fix r
      have "live r (sy_pollers t) + (if raw_at s i = r then 1 else 0) = live r (sy_pollers s)"
        using live_upd [OF poll_send(2), of "(sy_pollers s ! i)\<lparr>po_pc := Done\<rparr>" r] by (simp add: poll_send(1))
      then show "sent_phase PhaseSynced r (sent t) + live r (sy_pollers t)
          \<le> sent_phase PhaseSynced r (sent s) + live r (sy_pollers s)"
        unfolding ph by simp
    qed (simp_all add: ph, simp add: poll_send(1))
  next
    case (poll_tick i)
    show ?thesis by (rule poller) (use poll_tick in \<open>simp_all add: live_le sent_def\<close>)
  next
    case (poll_cancel i)
    show ?thesis by (rule poller) (use poll_cancel in \<open>simp_all add: live_le sent_def\<close>)
  next
    case (poll_read i fs f found)
    show ?thesis by (rule poller) (use poll_read in \<open>simp_all add: live_le sent_def\<close>)
  next
    case (poll_marks i kn' already now)
    show ?thesis by (rule poller) (use poll_marks in \<open>simp_all add: live_le sent_def\<close>)
  qed (use inv in \<open>auto simp: simps\<close>)
qed

section \<open>Prefixes of what has been sent\<close>

definition prefix_inv :: "sys \<Rightarrow> bool" where
  "prefix_inv s \<longleftrightarrow>
     (\<forall>r n. sent_phase PhaseSynced r (take n (sent s)) \<le> sent_phase PhaseStarted r (take n (sent s)))"

lemma wstep_sent: "wstep inc dir s t \<Longrightarrow> \<exists>evs. sent t = sent s @ evs \<and> length evs \<le> 1"
  by (cases rule: wstep.cases) (auto simp: sent_def)

interpretation prefixes: relative_invariant winit "wstep inc dir" "\<lambda>s. base_inv inc s \<and> sync_inv s" prefix_inv
  for inc dir
proof
  fix s t
  show "winit s \<Longrightarrow> prefix_inv s" by (simp add: winit_def prefix_inv_def sent_def)
  assume base: "base_inv inc s \<and> sync_inv s" and inv: "prefix_inv s" and step: "wstep inc dir s t"
  have "sync_inv t" using base step syncs.rel_step by blast
  then have all: "sent_phase PhaseSynced r (sent t) \<le> sent_phase PhaseStarted r (sent t)" for r
    unfolding sync_inv_def by (meson add_leD1)
  obtain evs where e: "sent t = sent s @ evs" "length evs \<le> 1" using wstep_sent [OF step] by blast
  show "prefix_inv t" unfolding prefix_inv_def
  proof (intro allI)
    fix r n
    show "sent_phase PhaseSynced r (take n (sent t)) \<le> sent_phase PhaseStarted r (take n (sent t))"
    proof (cases "n \<le> length (sent s)")
      case True
      then have "take n (sent t) = take n (sent s)" by (simp add: e)
      then show ?thesis using inv by (simp add: prefix_inv_def)
    next
      case False
      then have "take n (sent t) = sent t" using e by simp
      then show ?thesis using all by simp
    qed
  qed
qed

lemma out_prefix: "sy_out s = take (length (sy_out s)) (sent s)"
  by (simp add: sent_def)

section \<open>A scan without interruption\<close>

text \<open>
  If nothing interferes and the channel has room, the steps of a scan amount to \<open>parseAll\<close>:
  its bookkeeping, its sends in order, one poller for each that it starts.
\<close>

definition spawned :: "act list \<Rightarrow> poller list" where
  "spawned as = concat (map (\<lambda>a. case a of Send _ \<Rightarrow> [] | Spawn u \<Rightarrow> [\<lparr>po_upid = u, po_log = [], po_pc = Tick\<rparr>]) as)"

lemma spawned_simps [simp]:
  "spawned [] = []" "spawned (Send ev # as) = spawned as"
  "spawned (Spawn u # as) = \<lparr>po_upid = u, po_log = [], po_pc = Tick\<rparr> # spawned as"
  "spawned (as @ bs) = spawned as @ spawned bs"
  by (simp_all add: spawned_def)

lemma acts_run:
  "sy_scan s = Scanning obs ls f seen acts \<Longrightarrow> length (sy_chan s) + length (sends acts) \<le> chan_cap \<Longrightarrow>
   (wstep inc dir)\<^sup>*\<^sup>* s
     (s\<lparr>sy_chan := sy_chan s @ sends acts, sy_pollers := sy_pollers s @ spawned acts,
        sy_scan := Scanning obs ls f seen []\<rparr>)"
proof (induction acts arbitrary: s)
  case Nil
  then show ?case by (cases s) simp
next
  case (Cons a acts)
  show ?case
  proof (cases a)
    case (Send ev)
    then have "wstep inc dir s (s\<lparr>sy_chan := sy_chan s @ [ev], sy_scan := Scanning obs ls f seen acts\<rparr>)"
      using Cons.prems by (intro wstep.scan_send) auto
    then show ?thesis
      by (rule converse_rtranclp_into_rtranclp)
        (use Cons.IH [of "s\<lparr>sy_chan := sy_chan s @ [ev], sy_scan := Scanning obs ls f seen acts\<rparr>"]
          Cons.prems Send in simp)
  next
    case (Spawn u)
    let ?t = "s\<lparr>sy_pollers := sy_pollers s @ [\<lparr>po_upid = u, po_log = [], po_pc = Tick\<rparr>],
        sy_scan := Scanning obs ls f seen acts\<rparr>"
    have "wstep inc dir s ?t" using Cons.prems Spawn by (intro wstep.scan_spawn) auto
    then show ?thesis
      by (rule converse_rtranclp_into_rtranclp) (use Cons.IH [of ?t] Cons.prems Spawn in simp)
  qed
qed

lemma run3: "R a b \<Longrightarrow> R\<^sup>*\<^sup>* b c \<Longrightarrow> R\<^sup>*\<^sup>* c d \<Longrightarrow> R\<^sup>*\<^sup>* a d"
  by (rule converse_rtranclp_into_rtranclp, assumption) (rule rtranclp_trans)

lemma lines_run:
  "sy_scan s = Scanning obs ls f seen [] \<Longrightarrow> scan_loop inc obs ls (sy_known s) seen = (kn', seen', acts) \<Longrightarrow>
   length (sy_chan s) + length (sends acts) \<le> chan_cap \<Longrightarrow>
   (wstep inc dir)\<^sup>*\<^sup>* s
     (s\<lparr>sy_known := kn', sy_chan := sy_chan s @ sends acts, sy_pollers := sy_pollers s @ spawned acts,
        sy_scan := Scanning obs [] f seen' []\<rparr>)"
proof (induction ls arbitrary: s seen acts)
  case Nil
  then show ?case by (cases s) simp
next
  case (Cons l ls)
  obtain kn1 seen1 acts1 where 1: "scan_line inc obs l (sy_known s) seen = (kn1, seen1, acts1)"
    by (cases "scan_line inc obs l (sy_known s) seen")
  obtain acts2 where 2: "scan_loop inc obs ls kn1 seen1 = (kn', seen', acts2)" "acts = acts1 @ acts2"
    using Cons.prems(2) 1 by (auto split: prod.splits)
  let ?s1 = "s\<lparr>sy_known := kn1, sy_scan := Scanning obs ls f seen1 acts1\<rparr>"
  let ?s2 = "s\<lparr>sy_known := kn1, sy_chan := sy_chan s @ sends acts1,
      sy_pollers := sy_pollers s @ spawned acts1, sy_scan := Scanning obs ls f seen1 []\<rparr>"
  have "wstep inc dir s ?s1" using Cons.prems(1) 1 by (rule wstep.scan_line)
  moreover have "(wstep inc dir)\<^sup>*\<^sup>* ?s1 ?s2"
    using acts_run [of ?s1 obs ls f seen1 acts1] Cons.prems(3) 2(2) by simp
  moreover have "(wstep inc dir)\<^sup>*\<^sup>* ?s2
      (s\<lparr>sy_known := kn', sy_chan := sy_chan s @ sends acts, sy_pollers := sy_pollers s @ spawned acts,
         sy_scan := Scanning obs [] f seen' []\<rparr>)"
    using Cons.IH [of ?s2 seen1 acts2] Cons.prems(3) 2 by simp
  ultimately show ?case by (rule run3)
qed

lemma scan_run:
  assumes "sy_scan s = Idle" and "fopen fs (path_join [dir, ''active'']) = Inr input"
    and "parseAll inc obs input (sy_known s) = (kn', acts, False)"
    and "length (sy_chan s) + length (sends acts) \<le> chan_cap"
  shows "(wstep inc dir)\<^sup>*\<^sup>* s
    (s\<lparr>sy_known := kn', sy_chan := sy_chan s @ sends acts, sy_pollers := sy_pollers s @ spawned acts\<rparr>)"
proof -
  obtain content where input: "input = (content, False)" "snd (scan_lines scan_buffer content) = False"
    using assms(3) by (cases input) (auto simp: parseAll_unfold)
  define ls where "ls = fst (scan_lines scan_buffer content)"
  obtain kn1 seen where l: "scan_loop inc obs ls (sy_known s) {} = (kn1, seen, acts)" "kn' = gc seen kn1"
    using assms(3) unfolding parseAll_unfold input ls_def by auto
  have sl: "scan_lines scan_buffer content = (ls, False)"
    using input(2) by (simp add: ls_def prod_eq_iff)
  let ?s1 = "s\<lparr>sy_scan := Scanning obs ls (False \<or> False) {} []\<rparr>"
  let ?s2 = "s\<lparr>sy_known := kn1, sy_chan := sy_chan s @ sends acts, sy_pollers := sy_pollers s @ spawned acts,
      sy_scan := Scanning obs [] False seen []\<rparr>"
  let ?s3 = "s\<lparr>sy_known := kn', sy_chan := sy_chan s @ sends acts, sy_pollers := sy_pollers s @ spawned acts\<rparr>"
  have "?s2\<lparr>sy_known := gc seen kn1, sy_scan := Idle\<rparr> = ?s3"
    using assms(1) l(2) by (cases s) simp
  then have end_step: "(wstep inc dir)\<^sup>*\<^sup>* ?s2 ?s3"
    using wstep.scan_end [of ?s2 obs seen inc dir] by (simp add: r_into_rtranclp)
  have "wstep inc dir s ?s1" by (rule wstep.scan_start [OF assms(1) assms(2) [unfolded input] sl])
  moreover have "(wstep inc dir)\<^sup>*\<^sup>* ?s1 ?s2"
    using lines_run [of ?s1 obs ls False "{}" inc kn1 seen acts] l assms(4) by simp
  ultimately show ?thesis using end_step by (rule run3)
qed

section \<open>Two runs\<close>

text \<open>The migration of the sample task, its log in the tasks directory with the marker in it.\<close>

definition run_fs :: "string \<Rightarrow> fs" where
  "run_fs content =
     fs_of [(''/tasks/active'', RegFile (Inr content)),
            (''/tasks/'' @ sample_raw, RegFile (Inr migrationSyncedMarker))]"

lemma run_fs_open: "fopen (run_fs content) (path_join [''/tasks'', ''active'']) = Inr (content, False)"
  by (simp add: run_fs_def fopen_def fs_of_def path_join_def path_clean_def has_prefix_def)

lemma run_fs_log: "poll_log (run_fs content) ''/tasks'' sample_raw [] = (''/tasks/'' @ sample_raw, True)"
  by (simp add: poll_log_def FindLogFile_def log_direct_def exists_at_def run_fs_def read_file_def fopen_def
      fs_of_def path_join_def path_clean_def sample_raw_def migrationSyncedMarker_def str_simps)

definition started_ev :: task_event where
  "started_ev = \<lparr>tev_UPID = sample_upid, tev_Kind = KindQEMU, tev_Action = ActionMigrate,
     tev_Phase = PhaseStarted, tev_Status = [], tev_ObsTime = 1\<rparr>"

definition finished_ev :: task_event where
  "finished_ev = \<lparr>tev_UPID = sample_upid, tev_Kind = KindQEMU, tev_Action = ActionMigrate,
     tev_Phase = PhaseFinished, tev_Status = ''OK'', tev_ObsTime = 2\<rparr>"

definition synced_ev :: task_event where
  "synced_ev = \<lparr>tev_UPID = sample_upid, tev_Kind = KindQEMU, tev_Action = ActionMigrate,
     tev_Phase = PhaseSynced, tev_Status = [], tev_ObsTime = 3\<rparr>"

definition flags3 :: "bool \<Rightarrow> bool \<Rightarrow> bool \<Rightarrow> upid_state" where
  "flags3 a b c = \<lparr>startedEmitted = a, finishedEmitted = b, syncedEmitted = c\<rparr>"

text \<open>The state in which the poller has seen the marker and waits for the mutex.\<close>

definition before_mark :: sys where
  "before_mark =
     \<lparr>sy_known = [sample_raw \<mapsto> flags3 True False False], sy_chan = [started_ev], sy_out = [],
      sy_scan = Idle,
      sy_pollers = [\<lparr>po_upid = sample_upid, po_log = ''/tasks/'' @ sample_raw, po_pc = MarkSync\<rparr>]\<rparr>"

lemma sample_parseAll_running:
  "parseAll (\<lambda>_. True) 1 (sample_raw, False) Map.empty =
   ([sample_raw \<mapsto> flags3 True False False], [Send started_ev, Spawn sample_upid], False)"
  by (auto simp: parseAll_def sample_scan scan_line_def sample_classify mark_def known_at_def gc_def Let_def
      zero_state_def flags3_def line_acts_def started_ev_def fun_eq_iff)

lemma sample_parseAll_done:
  "parseAll (\<lambda>_. True) 2 (sample_done, False) [sample_raw \<mapsto> flags3 True False False] =
   ([sample_raw \<mapsto> flags3 True True False], [Send finished_ev], False)"
  by (auto simp: parseAll_def sample_scan scan_line_def sample_classify mark_def known_at_def gc_def Let_def
      flags3_def line_acts_def finished_ev_def isOK_def fun_eq_iff)

lemma reach_before_mark: "reach winit (wstep (\<lambda>_. True) ''/tasks'') before_mark"
proof -
  let ?R = "(wstep (\<lambda>_. True) ''/tasks'')\<^sup>*\<^sup>*"
  define s0 :: sys where
    "s0 = \<lparr>sy_known = Map.empty, sy_chan = [], sy_out = [], sy_scan = Idle, sy_pollers = []\<rparr>"
  let ?p = "\<lambda>f pc. [\<lparr>po_upid = sample_upid, po_log = f, po_pc = pc\<rparr>]"
  let ?s = "\<lambda>f pc. \<lparr>sy_known = [sample_raw \<mapsto> flags3 True False False], sy_chan = [started_ev],
      sy_out = [], sy_scan = Idle, sy_pollers = ?p f pc\<rparr>"
  have "?R s0 (?s [] Tick)"
    using scan_run [OF _ run_fs_open, of s0 "\<lambda>_. True" 1 sample_raw] sample_parseAll_running
    by (simp add: s0_def chan_cap_def)
  moreover have "wstep (\<lambda>_. True) ''/tasks'' (?s [] Tick) (?s [] ReadLog)"
    using wstep.poll_tick [of "?s [] Tick" 0]
    by (simp add: at_pc_def raw_at_def poll_alive_def set_poller_def flags3_def)
  moreover have "wstep (\<lambda>_. True) ''/tasks'' (?s [] ReadLog) before_mark"
    using wstep.poll_read [of "?s [] ReadLog" 0 "run_fs []" "''/tasks''"]
    by (simp add: at_pc_def raw_at_def set_poller_def run_fs_log before_mark_def)
  moreover have "reach winit (wstep (\<lambda>_. True) ''/tasks'') s0"
    by (rule reach_init) (simp add: winit_def s0_def)
  ultimately show ?thesis by (meson reach_step reach_steps)
qed

text \<open>The same poller once the scanner has reported the end of the task.\<close>

definition after_end :: sys where
  "after_end = before_mark\<lparr>sy_known := [sample_raw \<mapsto> flags3 True True False],
     sy_chan := [started_ev, finished_ev]\<rparr>"

lemma reach_after_end: "reach winit (wstep (\<lambda>_. True) ''/tasks'') after_end"
proof -
  have "(wstep (\<lambda>_. True) ''/tasks'')\<^sup>*\<^sup>* before_mark after_end"
    using scan_run [OF _ run_fs_open, of before_mark "\<lambda>_. True" 2 sample_done] sample_parseAll_done
    by (simp add: before_mark_def after_end_def chan_cap_def)
  then show ?thesis by (rule reach_steps [OF reach_before_mark])
qed

text \<open>The poller marks the task and sends, whatever the bookkeeping says by then.\<close>

lemma mark_and_send:
  assumes "sy_pollers s = [\<lparr>po_upid = sample_upid, po_log = f, po_pc = MarkSync\<rparr>]"
    and "\<not> syncedEmitted (known_at (sy_known s) sample_raw)" and "length (sy_chan s) < chan_cap"
  shows "(wstep inc dir)\<^sup>*\<^sup>* s
    (s\<lparr>sy_known := (sy_known s)(sample_raw \<mapsto> (known_at (sy_known s) sample_raw)\<lparr>syncedEmitted := True\<rparr>),
       sy_chan := sy_chan s @ [synced_ev],
       sy_pollers := [\<lparr>po_upid = sample_upid, po_log = f, po_pc = Done\<rparr>]\<rparr>)"
proof -
  have ev: "synced_event 3 sample_upid = Some synced_ev"
    by (simp add: synced_event_def synced_ev_def)
  let ?t = "s\<lparr>sy_known := (sy_known s)(sample_raw \<mapsto> (known_at (sy_known s) sample_raw)\<lparr>syncedEmitted := True\<rparr>),
      sy_pollers := [\<lparr>po_upid = sample_upid, po_log = f, po_pc = SendSync synced_ev\<rparr>]\<rparr>"
  have "wstep inc dir s ?t"
    using wstep.poll_marks [of s 0 _ _ inc dir 3] assms(1,2) ev
    by (simp add: at_pc_def raw_at_def poll_mark_def set_poller_def)
  moreover have "wstep inc dir ?t
    (?t\<lparr>sy_chan := sy_chan s @ [synced_ev], sy_pollers := [\<lparr>po_upid = sample_upid, po_log = f, po_pc = Done\<rparr>]\<rparr>)"
    using wstep.poll_send [of ?t 0 synced_ev inc dir] assms(3) by (simp add: at_pc_def set_poller_def)
  ultimately show ?thesis
    by (simp add: converse_rtranclp_into_rtranclp)
qed

lemma recv_all:
  "(wstep inc dir)\<^sup>*\<^sup>* s (s\<lparr>sy_chan := [], sy_out := sy_out s @ sy_chan s\<rparr>)"
proof (induction "sy_chan s" arbitrary: s)
  case Nil
  then show ?case by (cases s) simp
next
  case (Cons ev evs)
  let ?t = "s\<lparr>sy_chan := evs, sy_out := sy_out s @ [ev]\<rparr>"
  have "wstep inc dir s ?t" using Cons(2) by (intro wstep.recv) simp
  moreover have "(wstep inc dir)\<^sup>*\<^sup>* ?t (s\<lparr>sy_chan := [], sy_out := sy_out s @ sy_chan s\<rparr>)"
    using Cons(1) [of ?t] Cons(2) [symmetric] by simp
  ultimately show ?case by (rule converse_rtranclp_into_rtranclp)
qed

section \<open>Properties\<close>

text \<open>C1: Whatever the schedule and the contents of the files, the daemon receives about each
  task an alternation of started and ended: no finished or failed without a started before
  it, no second end, and no second start before an end. Between scans, with the channel
  drained, the alternation has an open start exactly for the tasks noted as running.\<close>

theorem watcher_alternates:
  assumes "reach winit (wstep inc dir) s"
  shows "\<exists>b. life False (lifeline r (sy_out s)) = Some b \<and>
    (sy_scan s = Idle \<and> sy_chan s = [] \<longrightarrow> b = (stage_of (known_at (sy_known s) r) = Running))"
proof -
  have "life False (lifeline r (hist s)) = Some (stage_of (known_at (sy_known s) r) = Running)"
    using lives.reachable_rel [OF assms] by (simp add: life_inv_def)
  then show ?thesis
    by (auto simp: hist_def sent_def life_append split: option.splits)
qed

lemma watcher_alternates_witness:
  "\<exists>b. life False (lifeline sample_raw (sy_out after_end)) = Some b"
  using watcher_alternates [OF reach_after_end, of sample_raw] by blast

text \<open>C12: Every event the daemon receives is well formed: its UPID is what its raw text parses
  to, its kind was asked for, kind and action are those of the worker type, the status goes
  with the phase, and only QEMU migrations are reported as synced. The channel never holds
  more than its capacity.\<close>

theorem watcher_events:
  assumes "reach winit (wstep inc dir) s"
  shows "list_all (ev_ok inc) (sy_out s) \<and> length (sy_chan s) \<le> chan_cap"
  using events.reachable_inv [OF assms] chan.reachable_inv [OF assms]
  by (simp add: events_inv_def sent_def chan_inv_def)

lemma watcher_events_witness:
  "length (sy_chan after_end) = 2 \<and> length (sy_chan after_end) \<le> chan_cap"
  using watcher_events [OF reach_after_end] by (simp add: after_end_def)

text \<open>C4: At every moment and for every task, at most as many synced events have been received
  as started events: synced never comes before its task's started event, and never twice for
  one start.\<close>

theorem watcher_synced_once:
  assumes "reach winit (wstep inc dir) s"
  shows "sent_phase PhaseSynced r (sy_out s) \<le> sent_phase PhaseStarted r (sy_out s)"
  using prefixes.reachable_rel [OF assms] out_prefix [of s] by (metis prefix_inv_def)

lemma watcher_synced_once_witness:
  "sent_phase PhaseSynced sample_raw (sy_out after_end) \<le> sent_phase PhaseStarted sample_raw (sy_out after_end)"
  by (rule watcher_synced_once [OF reach_after_end])

text \<open>C37: Synced does not always precede the end of the task: the poller decides to report
  before it takes the mutex, and does not look at the task's end again, so that a run exists
  in which the daemon receives started, finished, synced.\<close>

theorem synced_after_finished:
  "\<exists>s. reach winit (wstep (\<lambda>_. True) ''/tasks'') s \<and>
     map (\<lambda>ev. (raw_of ev, tev_Phase ev)) (sy_out s) =
       [(sample_raw, PhaseStarted), (sample_raw, PhaseFinished), (sample_raw, PhaseSynced)]"
proof -
  let ?t = "after_end\<lparr>sy_known := [sample_raw \<mapsto> flags3 True True True],
      sy_chan := [started_ev, finished_ev, synced_ev],
      sy_pollers := [\<lparr>po_upid = sample_upid, po_log = ''/tasks/'' @ sample_raw, po_pc = Done\<rparr>]\<rparr>"
  have A: "(wstep (\<lambda>_. True) ''/tasks'')\<^sup>*\<^sup>* after_end ?t"
    using mark_and_send [of after_end "''/tasks/'' @ sample_raw" "\<lambda>_. True" "''/tasks''"]
    by (simp add: after_end_def before_mark_def known_at_def flags3_def chan_cap_def)
  have "reach winit (wstep (\<lambda>_. True) ''/tasks'') (?t\<lparr>sy_chan := [], sy_out := sy_out ?t @ sy_chan ?t\<rparr>)"
    by (rule reach_steps [OF reach_after_end rtranclp_trans [OF A recv_all]])
  then show ?thesis
    by (intro exI, rule conjI)
      (simp_all add: after_end_def before_mark_def started_ev_def finished_ev_def synced_ev_def raw_of_def)
qed

text \<open>C38: A task can stay in the bookkeeping for good: when a scan forgets an ended task
  between the poller's two critical sections, the second one writes the entry back with only
  \<open>syncedEmitted\<close> set, and no later scans remove it, whatever the file holds of other tasks, as
  this one was never noted as finished.\<close>

theorem stale_entry:
  "\<exists>s. reach winit (wstep (\<lambda>_. True) ''/tasks'') s \<and>
     list_all (\<lambda>p. po_pc p = Done) (sy_pollers s) \<and>
     sy_known s sample_raw = Some (flags3 False False True) \<and>
     (\<forall>scans. list_all (\<lambda>(obs, input). statuses_of (\<lambda>_. True) sample_raw (fst (scan_lines scan_buffer (fst input))) = []) scans \<longrightarrow>
        fold (\<lambda>(obs, input) kn. fst (parseAll (\<lambda>_. True) obs input kn)) scans (sy_known s) sample_raw =
          Some (flags3 False False True))"
proof -
  let ?gone = "after_end\<lparr>sy_known := Map.empty\<rparr>"
  let ?t = "after_end\<lparr>sy_known := [sample_raw \<mapsto> flags3 False False True],
      sy_chan := [started_ev, finished_ev, synced_ev],
      sy_pollers := [\<lparr>po_upid = sample_upid, po_log = ''/tasks/'' @ sample_raw, po_pc = Done\<rparr>]\<rparr>"
  have empty: "parseAll (\<lambda>_. True) obs ([], False) kn = (gc {} kn, [], False)" for obs kn
    by (simp add: parseAll_def str_simps scan_buffer_def)
  have gcs: "gc {} [sample_raw \<mapsto> flags3 True True False] = Map.empty"
    "gc {} [sample_raw \<mapsto> flags3 False False True] = [sample_raw \<mapsto> flags3 False False True]"
    by (auto simp: gc_def flags3_def fun_eq_iff)
  have A: "(wstep (\<lambda>_. True) ''/tasks'')\<^sup>*\<^sup>* after_end ?gone"
    using scan_run [OF _ run_fs_open, of after_end "\<lambda>_. True" 4 "[]"]
    by (simp add: empty after_end_def before_mark_def chan_cap_def gcs)
  have B: "(wstep (\<lambda>_. True) ''/tasks'')\<^sup>*\<^sup>* ?gone ?t"
    using mark_and_send [of ?gone "''/tasks/'' @ sample_raw" "\<lambda>_. True" "''/tasks''"]
    by (simp add: after_end_def before_mark_def known_at_def zero_state_def flags3_def chan_cap_def)
  have "reach winit (wstep (\<lambda>_. True) ''/tasks'') ?t"
    by (rule reach_steps [OF reach_after_end rtranclp_trans [OF A B]])
  moreover have "fold (\<lambda>(obs, input) kn. fst (parseAll (\<lambda>_. True) obs input kn)) scans kn sample_raw =
      Some (flags3 False False True)"
    if "list_all (\<lambda>(obs, input). statuses_of (\<lambda>_. True) sample_raw (fst (scan_lines scan_buffer (fst input))) = []) scans"
      and "kn sample_raw = Some (flags3 False False True)" for scans kn
    using that
  proof (induction scans arbitrary: kn)
    case (Cons x scans)
    obtain obs input where x: "x = (obs, input)" by (cases x)
    then have "fst (parseAll (\<lambda>_. True) obs input kn) sample_raw = Some (flags3 False False True)"
      using Cons.prems by (intro parseAll_unlisted) (simp_all add: flags3_def)
    then show ?case using Cons.IH [of "fst (parseAll (\<lambda>_. True) obs input kn)"] Cons.prems(1) x by simp
  qed simp
  ultimately show ?thesis by (intro exI [of _ ?t]) simp
qed

text \<open>Three scans of a file with no task in it.\<close>

lemma stale_entry_witness:
  "\<exists>s. reach winit (wstep (\<lambda>_. True) ''/tasks'') s \<and>
     fold (\<lambda>(obs, input) kn. fst (parseAll (\<lambda>_. True) obs input kn))
       [(5, [], False), (6, ''garbage'', True), (7, [], False)] (sy_known s) sample_raw = Some (flags3 False False True)"
proof -
  have "ParseActiveLine ''garbage'' \<noteq> Inr r" for r
    by (cases r) (simp add: ParseActiveLine_def ParseUPID_def str_simps)
  then have "statuses_of (\<lambda>_. True) sample_raw [''garbage''] = []"
    by (simp add: statuses_of_def classify_def split: sum.split)
  then have "list_all (\<lambda>(obs, input). statuses_of (\<lambda>_. True) sample_raw (fst (scan_lines scan_buffer (fst input))) = [])
      [(5 :: int, [], False), (6, ''garbage'', True), (7, [], False)]"
    by (simp add: scan_lines_def scan_buffer_def drop_cr_def statuses_of_def)
  then show ?thesis using stale_entry by blast
qed

end
