(* ===== verification/Pmxcfs.thy ===== *)
theory Pmxcfs
  imports Logfile
begin

text \<open>
  The reader of the Proxmox cluster file system (\<open>internal/pmxcfs\<close>): the membership file
  with its cache of two seconds, the VM configuration files and the list of VMs. The file
  system and the clock are arguments; \<open>unmarshal\<close> is the JSON decoder applied to the
  membership file, \<open>None\<close> when it fails.
\<close>

section \<open>Membership\<close>

record cluster_info =
  ci_Name :: string
  ci_Nodes :: int
  ci_Quorate :: int
  ci_Version :: int

record node =
  nd_ID :: int
  nd_Online :: int
  nd_IP :: string

text \<open>The node list is a Go map; the list gives its entries in the order of one iteration.\<close>

record members =
  mb_NodeName :: string
  mb_Cluster :: cluster_info
  mb_NodeList :: "(string \<times> node) list"

record reader =
  rd_root :: string
  rd_members :: "members option"
  rd_loaded :: time

definition MembersFile :: string where
  "MembersFile = ''.members''"

definition Reader_New :: "string \<Rightarrow> reader" where
  "Reader_New root =
     \<lparr>rd_root = (if root = [] then ''/etc/pve'' else root), rd_members = None, rd_loaded = 0\<rparr>"

text \<open>Two seconds, in nanoseconds.\<close>

definition members_ttl :: time where
  "members_ttl = 2 * 1000000000"

datatype members_error = ReadMembers io_error | ParseMembers

definition reloadMembers ::
    "(string \<Rightarrow> members option) \<Rightarrow> fs \<Rightarrow> time \<Rightarrow> reader \<Rightarrow> (members_error + members) \<times> reader" where
  "reloadMembers unmarshal fs now rd =
     (case read_file fs (path_join [rd_root rd, MembersFile]) of
        Inl e \<Rightarrow> (Inl (ReadMembers e), rd)
      | Inr b \<Rightarrow>
          (case unmarshal b of
             None \<Rightarrow> (Inl ParseMembers, rd)
           | Some m \<Rightarrow> (Inr m, rd\<lparr>rd_members := Some m, rd_loaded := now\<rparr>)))"

text \<open>\<open>Members\<close> looks at the clock first, and \<open>reloadMembers\<close> again once it has read.\<close>

definition Members ::
    "(string \<Rightarrow> members option) \<Rightarrow> fs \<Rightarrow> time \<Rightarrow> time \<Rightarrow> reader \<Rightarrow> (members_error + members) \<times> reader" where
  "Members unmarshal fs now now' rd =
     (case rd_members rd of
        Some m \<Rightarrow> if now - rd_loaded rd < members_ttl then (Inr m, rd) else reloadMembers unmarshal fs now' rd
      | None \<Rightarrow> reloadMembers unmarshal fs now' rd)"

text \<open>What the accessors make of the result of \<open>Members\<close>.\<close>

definition ClusterName :: "members_error + members \<Rightarrow> string" where
  "ClusterName r = (case r of Inl _ \<Rightarrow> [] | Inr m \<Rightarrow> ci_Name (mb_Cluster m))"

definition LocalNodeName :: "fs \<Rightarrow> members_error + members \<Rightarrow> io_error + string" where
  "LocalNodeName fs r =
     (case r of
        Inr m \<Rightarrow>
          if mb_NodeName m \<noteq> [] then Inr (mb_NodeName m)
          else (case read_file fs ''/etc/hostname'' of Inl e \<Rightarrow> Inl e | Inr b \<Rightarrow> Inr (trim_space b))
      | Inl _ \<Rightarrow>
          (case read_file fs ''/etc/hostname'' of Inl e \<Rightarrow> Inl e | Inr b \<Rightarrow> Inr (trim_space b)))"

datatype local_ip_error = IPMembers members_error | NoLocalName | NotInNodelist string | NoIP string

definition LocalIP :: "members_error + members \<Rightarrow> local_ip_error + string" where
  "LocalIP r =
     (case r of
        Inl e \<Rightarrow> Inl (IPMembers e)
      | Inr m \<Rightarrow>
          if mb_NodeName m = [] then Inl NoLocalName
          else (case map_of (mb_NodeList m) (mb_NodeName m) of
              None \<Rightarrow> Inl (NotInNodelist (mb_NodeName m))
            | Some n \<Rightarrow> if nd_IP n = [] then Inl (NoIP (mb_NodeName m)) else Inr (nd_IP n)))"

definition Peers :: "members_error + members \<Rightarrow> members_error + node list" where
  "Peers r =
     (case r of
        Inl e \<Rightarrow> Inl e
      | Inr m \<Rightarrow>
          Inr [n. (name, n) \<leftarrow> mb_NodeList m, name \<noteq> mb_NodeName m, nd_Online n \<noteq> 0])"

section \<open>VM configuration\<close>

record vm_config =
  vc_Kind :: kind
  vc_VMID :: int
  vc_Name :: string
  vc_Tags :: "string list"
  vc_Description :: string
  vc_HookScript :: string
  vc_Net :: "string \<rightharpoonup> string"
  vc_Raw :: "string \<rightharpoonup> string"

definition tag_sep :: "char \<Rightarrow> bool" where
  "tag_sep c \<longleftrightarrow> c = CHR '';'' \<or> c = CHR '','' \<or> c = CHR '' ''"

definition splitTags :: "string \<Rightarrow> string list" where
  "splitTags v =
     (let v = trim_space v
      in if v = [] then [] else filter (\<lambda>p. p \<noteq> []) (fields_func tag_sep v))"

text \<open>\<open>strings.ReplaceAll\<close> of a backslash and an \<open>n\<close> by a newline.\<close>

fun unescapeDescription :: "string \<Rightarrow> string" where
  "unescapeDescription [] = []"
| "unescapeDescription [c] = [c]"
| "unescapeDescription (c # d # t) =
     (if c = CHR 0x5C \<and> d = CHR ''n'' then CHR 0x0A # unescapeDescription t
      else c # unescapeDescription (d # t))"

text \<open>The key and value of a line, if it has any.\<close>

definition conf_pair :: "string \<Rightarrow> (string \<times> string) option" where
  "conf_pair line =
     (let (k, v, found) = cut line CHR '':''
      in if \<not> found \<or> k = [] then None else Some (trim_space k, trim_space v))"

definition conf_set :: "string \<Rightarrow> string \<Rightarrow> vm_config \<Rightarrow> vm_config" where
  "conf_set k v cfg =
     (let cfg = cfg\<lparr>vc_Raw := (vc_Raw cfg)(k \<mapsto> v)\<rparr>
      in if k = ''name'' \<or> k = ''hostname'' then cfg\<lparr>vc_Name := v\<rparr>
         else if k = ''tags'' then cfg\<lparr>vc_Tags := splitTags v\<rparr>
         else if k = ''description'' then cfg\<lparr>vc_Description := unescapeDescription v\<rparr>
         else if k = ''hookscript'' then cfg\<lparr>vc_HookScript := v\<rparr>
         else if has_prefix k ''net'' then cfg\<lparr>vc_Net := (vc_Net cfg)(k \<mapsto> v)\<rparr>
         else cfg)"

text \<open>The loop over the lines; it stops at a section header, with the lines that were left.\<close>

fun conf_loop :: "string list \<Rightarrow> vm_config \<Rightarrow> vm_config \<times> string list option" where
  "conf_loop [] cfg = (cfg, None)"
| "conf_loop (text # ls) cfg =
     (let line = trim_right_set [CHR 0x0D, CHR 0x0A] text
      in if line = [] \<or> has_prefix line ''#'' then conf_loop ls cfg
         else if has_prefix line ''['' then (cfg, Some ls)
         else (case conf_pair line of
             None \<Rightarrow> conf_loop ls cfg
           | Some (k, v) \<Rightarrow> conf_loop ls (conf_set k v cfg)))"

datatype conf_error = UnknownKind kind | ConfOpen io_error | ConfScan

definition conf_path :: "string \<Rightarrow> kind \<Rightarrow> int \<Rightarrow> string option" where
  "conf_path root k vmid =
     (if k = KindQEMU then Some (path_join [root, ''qemu-server'', show_int vmid @ ''.conf''])
      else if k = KindLXC then Some (path_join [root, ''lxc'', show_int vmid @ ''.conf''])
      else None)"

definition empty_config :: "kind \<Rightarrow> int \<Rightarrow> vm_config" where
  "empty_config k vmid =
     \<lparr>vc_Kind = k, vc_VMID = vmid, vc_Name = [], vc_Tags = [], vc_Description = [],
      vc_HookScript = [], vc_Net = Map.empty, vc_Raw = Map.empty\<rparr>"

text \<open>
  The scanner meets a read error when it asks for more than was read. Every line that ends with
  a newline is handed over before; a last line without one (\<open>unended\<close>) only after it, so that a
  header which is cut off by the error ends the loop with the error set.
\<close>

definition unended :: "string \<Rightarrow> bool" where
  "unended content \<longleftrightarrow> content \<noteq> [] \<and> last content \<noteq> CHR 0x0A"

definition ReadVMConfig :: "fs \<Rightarrow> string \<Rightarrow> kind \<Rightarrow> int \<Rightarrow> conf_error + vm_config" where
  "ReadVMConfig fs root k vmid =
     (case conf_path root k vmid of
        None \<Rightarrow> Inl (UnknownKind k)
      | Some path \<Rightarrow>
          (case fopen fs path of
             Inl e \<Rightarrow> Inl (ConfOpen e)
           | Inr (content, failed) \<Rightarrow>
               let (lines, too_long) = scan_lines max_scan_token content;
                   (cfg, stopped) = conf_loop lines (empty_config k vmid);
                   err = (case stopped of
                       None \<Rightarrow> too_long \<or> failed
                     | Some rest \<Rightarrow> failed \<and> rest = [] \<and> \<not> too_long \<and> unended content)
               in if err then Inl ConfScan else Inr cfg))"

section \<open>The list of VMs\<close>

definition conf_id :: "string \<Rightarrow> int option" where
  "conf_id name = (if \<not> has_suffix name ''.conf'' then None else atoi (trim_suffix name ''.conf''))"

definition listConfigDir :: "fs \<Rightarrow> string \<Rightarrow> io_error + int list" where
  "listConfigDir fs dir =
     (case read_dir fs dir of
        Inl e \<Rightarrow> if e = NotExist then Inr [] else Inl e
      | Inr es \<Rightarrow> Inr (concat (map (\<lambda>(name, _). case conf_id name of None \<Rightarrow> [] | Some i \<Rightarrow> [i]) es)))"

definition VMList :: "fs \<Rightarrow> string \<Rightarrow> io_error + (int list \<times> int list)" where
  "VMList fs root =
     (case listConfigDir fs (path_join [root, ''qemu-server'']) of
        Inl e \<Rightarrow> Inl e
      | Inr q \<Rightarrow>
          (case listConfigDir fs (path_join [root, ''lxc'']) of
             Inl e \<Rightarrow> Inl e
           | Inr l \<Rightarrow> Inr (q, l)))"

section \<open>Configuration lines\<close>

text \<open>The assignments of the default section.\<close>

fun conf_pairs :: "string list \<Rightarrow> (string \<times> string) list" where
  "conf_pairs [] = []"
| "conf_pairs (text # ls) =
     (let line = trim_right_set [CHR 0x0D, CHR 0x0A] text
      in if line = [] \<or> has_prefix line ''#'' then conf_pairs ls
         else if has_prefix line ''['' then []
         else (case conf_pair line of None \<Rightarrow> conf_pairs ls | Some p \<Rightarrow> p # conf_pairs ls))"

definition conf_sets :: "(string \<times> string) list \<Rightarrow> vm_config \<Rightarrow> vm_config" where
  "conf_sets ps cfg = fold (\<lambda>(k, v). conf_set k v) ps cfg"

lemma conf_loop_pairs: "fst (conf_loop ls cfg) = conf_sets (conf_pairs ls) cfg"
  by (induction ls cfg rule: conf_loop.induct) (auto simp: Let_def conf_sets_def split: option.split)

text \<open>What every configuration satisfies: the typed fields are projections of the raw map.\<close>

definition raw_or :: "vm_config \<Rightarrow> string \<Rightarrow> (string \<Rightarrow> 'a) \<Rightarrow> 'a \<Rightarrow> 'a" where
  "raw_or cfg k f d = (case vc_Raw cfg k of None \<Rightarrow> d | Some v \<Rightarrow> f v)"

definition projected :: "vm_config \<Rightarrow> bool" where
  "projected cfg \<longleftrightarrow>
     vc_Net cfg = vc_Raw cfg |` {k. has_prefix k ''net''} \<and>
     vc_Tags cfg = raw_or cfg ''tags'' splitTags [] \<and>
     vc_Description cfg = raw_or cfg ''description'' unescapeDescription [] \<and>
     vc_HookScript cfg = raw_or cfg ''hookscript'' (\<lambda>v. v) []"

lemma empty_config_simps [simp]:
  "vc_Kind (empty_config k vmid) = k" "vc_VMID (empty_config k vmid) = vmid"
  "vc_Name (empty_config k vmid) = []" "vc_Raw (empty_config k vmid) = Map.empty"
  by (simp_all add: empty_config_def)

lemma projected_empty: "projected (empty_config k vmid)"
  by (simp add: projected_def raw_or_def empty_config_def)

lemma projected_set: "projected cfg \<Longrightarrow> projected (conf_set k v cfg)"
  by (auto simp: projected_def raw_or_def conf_set_def Let_def fun_eq_iff restrict_map_def has_prefix_def)

lemma projected_sets: "projected cfg \<Longrightarrow> projected (conf_sets ps cfg)"
  unfolding conf_sets_def by (induction ps arbitrary: cfg) (auto simp: projected_set)

lemma raw_set [simp]: "vc_Raw (conf_set k v cfg) = (vc_Raw cfg)(k \<mapsto> v)"
  by (simp add: conf_set_def Let_def)

lemma raw_sets: "vc_Raw (conf_sets ps cfg) = vc_Raw cfg ++ map_of (rev ps)"
  unfolding conf_sets_def
  by (induction ps arbitrary: cfg) (auto simp: map_add_upd_left map_add_assoc fun_eq_iff map_add_def split: option.split)

definition is_name :: "string \<times> string \<Rightarrow> bool" where
  "is_name p \<longleftrightarrow> fst p = ''name'' \<or> fst p = ''hostname''"

lemma name_sets:
  "vc_Name (conf_sets ps cfg) = (case filter is_name ps of [] \<Rightarrow> vc_Name cfg | qs \<Rightarrow> snd (last qs))"
  unfolding conf_sets_def
proof (induction ps arbitrary: cfg)
  case (Cons p ps)
  then show ?case
    by (cases p) (auto simp: is_name_def conf_set_def Let_def split: list.split)
qed simp

lemma trim_right_header: "has_prefix (trim_right_set cs t) p \<Longrightarrow> has_prefix t p"
proof -
  have "t = trim_right_set cs t @ rev (takeWhile (\<lambda>c. c \<in> set cs) (rev t))"
    unfolding trim_right_set_def by (metis rev_append rev_rev_ident takeWhile_dropWhile_id)
  then show "has_prefix (trim_right_set cs t) p \<Longrightarrow> has_prefix t p"
    by (metis append.assoc has_prefix_iff)
qed

lemma header_kept:
  assumes "has_prefix h ''[''"
  shows "has_prefix (trim_right_set [CHR 0x0D, CHR 0x0A] h) ''['' \<and> has_prefix (drop_cr h) ''[''"
proof -
  obtain t where h: "h = CHR ''['' # t" using assms by (cases h) (auto simp: has_prefix_def)
  have "dropWhile (\<lambda>c. c = CHR 0x0D \<or> c = CHR 0x0A) (rev t @ ''['') =
      dropWhile (\<lambda>c. c = CHR 0x0D \<or> c = CHR 0x0A) (rev t) @ ''[''"
    by (induction "rev t") (auto simp: dropWhile_append)
  then show ?thesis
    by (auto simp: h trim_right_set_def drop_cr_def)
qed

lemma conf_loop_stop:
  assumes "has_prefix h ''[''" and "list_all (\<lambda>l. \<not> has_prefix l ''['') ls"
  shows "conf_loop (ls @ h # rest) cfg = (conf_sets (conf_pairs ls) cfg, Some rest)"
  using assms(2)
proof (induction ls arbitrary: cfg)
  case Nil
  show ?case using header_kept [OF assms(1)]
    by (auto simp: conf_sets_def Let_def has_prefix_def)
next
  case (Cons l ls)
  then show ?case by (auto simp: Let_def conf_sets_def split: option.split dest: trim_right_header)
qed

lemma conf_loop_all:
  "list_all (\<lambda>l. \<not> has_prefix l ''['') ls \<Longrightarrow> conf_loop ls cfg = (conf_sets (conf_pairs ls) cfg, None)"
  by (induction ls arbitrary: cfg) (auto simp: Let_def conf_sets_def split: option.split dest: trim_right_header)

lemma drop_cr_header: "has_prefix (drop_cr l) p \<Longrightarrow> has_prefix l p"
  by (auto simp: drop_cr_def has_prefix_iff split: if_splits) (metis append_butlast_last_id append.assoc)

lemma ReadVMConfig_loop:
  assumes "ReadVMConfig fs root k vmid = Inr cfg"
  shows "\<exists>path content failed. conf_path root k vmid = Some path \<and> fopen fs path = Inr (content, failed) \<and>
    cfg = conf_sets (conf_pairs (fst (scan_lines max_scan_token content))) (empty_config k vmid)"
proof -
  obtain path content failed where r: "conf_path root k vmid = Some path" "fopen fs path = Inr (content, failed)"
    using assms by (auto simp: ReadVMConfig_def split: option.splits sum.splits)
  then show ?thesis
    using assms by (simp add: ReadVMConfig_def Let_def split_beta conf_loop_pairs split: if_splits)
qed

lemma listConfigDir_set:
  "listConfigDir fs dir = Inr is \<Longrightarrow>
   set is = {i. \<exists>es name d. read_dir fs dir = Inr es \<and> (name, d) \<in> set es \<and> conf_id name = Some i}"
  by (auto simp: listConfigDir_def split: sum.splits if_splits option.splits) force+

section \<open>Tags and descriptions\<close>

lemma fields_aux_word:
  "list_all (\<lambda>c. \<not> P c) w \<Longrightarrow>
   fields_aux (map (\<lambda>c. (P c, [c])) w @ us) cur = fields_aux us (cur @ w)"
  by (induction w arbitrary: cur) auto

lemma fields_func_join:
  assumes "P c" and "list_all (\<lambda>w. w \<noteq> [] \<and> list_all (\<lambda>c. \<not> P c) w) ws"
  shows "fields_func P (join [c] ws) = ws"
  using assms(2) unfolding fields_func_def
proof (induction ws rule: induct_list012)
  case (2 w)
  then show ?case using fields_aux_word [of P w "[]" "[]"] by simp
next
  case (3 w v vs)
  then show ?case using fields_aux_word [of P w "(P c, [c]) # map (\<lambda>c. (P c, [c])) (join [c] (v # vs))" "[]"] assms(1)
    by simp
qed simp

text \<open>How PVE puts a description on one line.\<close>

definition escapeDescription :: "string \<Rightarrow> string" where
  "escapeDescription s = concat (map (\<lambda>c. if c = CHR 0x0A then [CHR 0x5C, CHR ''n''] else [c]) s)"

lemma unescape_Cons: "c \<noteq> CHR 0x5C \<Longrightarrow> unescapeDescription (c # t) = c # unescapeDescription t"
  by (cases t) auto

lemma unescape_escape: "unescapeDescription (escapeDescription d) = unescapeDescription d"
  by (induction d rule: unescapeDescription.induct) (auto simp: escapeDescription_def unescape_Cons)

lemma unescape_length: "length (unescapeDescription d) \<le> length d"
  by (induction d rule: unescapeDescription.induct) auto

lemma unescape_id: "unescapeDescription d = d \<longleftrightarrow> \<not> contains d [CHR 0x5C, CHR ''n'']"
proof (induction d rule: unescapeDescription.induct)
  case (3 c d t)
  have "unescapeDescription t \<noteq> CHR ''n'' # t" using unescape_length [of t] by auto
  then show ?case using 3 by auto
qed auto

lemma plain_join:
  "plain c \<Longrightarrow> list_all (list_all plain) ws \<Longrightarrow> list_all plain (join [c] ws)"
  by (induction ws rule: induct_list012) auto

lemma trim_space_plain: "list_all plain s \<Longrightarrow> trim_space s = s"
  by (cases "s = []") (simp_all add: trim_space_plain_word plain_word_def)

section \<open>The membership cache\<close>

text \<open>
  \<open>env t\<close> is the file system that a reload stamped \<open>t\<close> reads. A cache is sound if what it
  holds is what the membership file said at its stamp.
\<close>

definition members_at :: "(string \<Rightarrow> members option) \<Rightarrow> fs \<Rightarrow> string \<Rightarrow> members option" where
  "members_at unmarshal fs root =
     (case read_file fs (path_join [root, MembersFile]) of Inl _ \<Rightarrow> None | Inr b \<Rightarrow> unmarshal b)"

definition cache_sound :: "(string \<Rightarrow> members option) \<Rightarrow> (time \<Rightarrow> fs) \<Rightarrow> reader \<Rightarrow> bool" where
  "cache_sound unmarshal env rd \<longleftrightarrow>
     (case rd_members rd of
        None \<Rightarrow> True
      | Some m \<Rightarrow> members_at unmarshal (env (rd_loaded rd)) (rd_root rd) = Some m)"

lemma reload_sound:
  assumes "reloadMembers unmarshal (env t) t rd = (r, rd')"
  shows "rd_root rd' = rd_root rd \<and>
    (cache_sound unmarshal env rd \<longrightarrow> cache_sound unmarshal env rd') \<and>
    (case r of Inl _ \<Rightarrow> members_at unmarshal (env t) (rd_root rd) = None
             | Inr m \<Rightarrow> members_at unmarshal (env t) (rd_root rd) = Some m)"
  using assms
  by (auto simp: reloadMembers_def members_at_def cache_sound_def split: sum.splits option.splits)

section \<open>Properties\<close>

text \<open>C25: Only the default section of a configuration counts: once a line opens a snapshot or
  pending section, the result is what a file with only the lines before it would give, and no
  error, whatever bytes follow, an overlong line or a read error included. Only a header that is
  itself cut off by a read error fails, with all that was read. (The lines up to the header
  are shorter than the scanner's 64 KiB.)\<close>

theorem ReadVMConfig_default_section:
  assumes "conf_path root k vmid = Some path"
    and "fopen fs path = Inr (unlines ls @ h @ tail, failed)"
    and "list_all (short_line max_scan_token) (h # ls)"
    and "list_all (\<lambda>l. \<not> has_prefix l ''['') ls" and "has_prefix h ''[''"
    and "tail = [] \<or> hd tail = CHR 0x0A"
  shows "\<exists>cfg. ReadVMConfig (fs(path := Inr (RegFile (Inr (unlines ls))))) root k vmid = Inr cfg \<and>
    ReadVMConfig fs root k vmid = (if failed \<and> tail = [] then Inl ConfScan else Inr cfg)"
proof (intro exI conjI)
  let ?cfg = "conf_sets (conf_pairs (map drop_cr ls)) (empty_config k vmid)"
  have short: "list_all (short_line max_scan_token) ls" "short_line max_scan_token h"
    using assms(3) by auto
  have plain: "list_all (\<lambda>l. \<not> has_prefix l ''['') (map drop_cr ls)"
    using assms(4) by (auto simp: list_all_iff dest: drop_cr_header)
  note stop = conf_loop_stop [OF header_kept [OF assms(5), THEN conjunct2] plain]
  have nil: "scan_lines max_scan_token [] = ([], False)" by (simp add: scan_lines_def max_scan_token_def)
  show "ReadVMConfig (fs(path := Inr (RegFile (Inr (unlines ls))))) root k vmid = Inr ?cfg"
    using scan_lines_append [OF short(1), of "[]"] nil
    by (simp add: ReadVMConfig_def assms(1) fopen_def conf_loop_all [OF plain])
  show "ReadVMConfig fs root k vmid = (if failed \<and> tail = [] then Inl ConfScan else Inr ?cfg)"
  proof (cases tail)
    case Nil
    have "h \<noteq> []" using assms(5) by auto
    then have "last h \<noteq> CHR 0x0A" using short(2) by (metis last_in_set short_line_def)
    then have "unended (unlines ls @ h)" using \<open>h \<noteq> []\<close> by (simp add: unended_def)
    then show ?thesis
      using scan_lines_append [OF short(1), of h] scan_lines_last [OF short(2) \<open>h \<noteq> []\<close>] Nil
      by (simp add: ReadVMConfig_def assms(1,2) stop)
  next
    case (Cons c t)
    then have tail: "h @ tail = unlines [h] @ t" using assms(6) by simp
    have lines: "scan_lines max_scan_token (unlines ls @ h @ tail) =
        (map drop_cr ls @ drop_cr h # fst (scan_lines max_scan_token t), snd (scan_lines max_scan_token t))"
      unfolding tail using scan_lines_append [OF short(1)] scan_lines_append [of max_scan_token "[h]" t] short(2)
      by simp
    have "\<not> (fst (scan_lines max_scan_token t) = [] \<and> \<not> snd (scan_lines max_scan_token t) \<and> unended (unlines ls @ h @ tail))"
    proof (cases "t = []")
      case True
      then show ?thesis using Cons assms(6) by (simp add: unended_def)
    next
      case False
      then show ?thesis using scan_lines_empty [of max_scan_token t] by (cases "scan_lines max_scan_token t") auto
    qed
    moreover have "tail \<noteq> []" using Cons by simp
    ultimately show ?thesis by (auto simp: ReadVMConfig_def assms(1,2) lines stop)
  qed
qed

definition sample_conf :: string where
  "sample_conf = ''name: web'' @ [CHR 0x0A] @ ''tags: prod;db'' @ [CHR 0x0A] @ ''[snap]'' @ [CHR 0x0A] @ ''name: old''"

definition conf_fs :: fs where
  "conf_fs = fs_of [(''/etc/pve/qemu-server/100.conf'', Failing sample_conf),
     (''/etc/pve/qemu-server'', Directory (Inr [(''100.conf'', False), (''x.conf'', False)]))]"

lemma sample_conf_path: "conf_path ''/etc/pve'' KindQEMU 100 = Some ''/etc/pve/qemu-server/100.conf''"
  by (simp add: conf_path_def path_join_def path_clean_def show_int_100 str_simps)

lemma sample_conf_lines: "sample_conf = unlines [''name: web'', ''tags: prod;db''] @ ''[snap]'' @ [CHR 0x0A] @ ''name: old''"
  by (simp add: sample_conf_def)

lemma sample_conf_open: "fopen conf_fs ''/etc/pve/qemu-server/100.conf'' = Inr (sample_conf, True)"
  by (simp add: conf_fs_def fopen_def fs_of_def)

lemma ReadVMConfig_default_section_witness:
  "\<exists>cfg. ReadVMConfig conf_fs ''/etc/pve'' KindQEMU 100 = Inr cfg"
  using ReadVMConfig_default_section [OF sample_conf_path sample_conf_open [unfolded sample_conf_lines]]
  by (force simp: short_line_def max_scan_token_def)

text \<open>What the default section assigns, read off the lines without the loop: up to the first header,
  the lines that have a colon, but not in front, and are no comments.\<close>

definition assignments :: "string list \<Rightarrow> (string \<times> string) list" where
  "assignments ls =
     [(trim_space (takeWhile (\<lambda>c. c \<noteq> CHR '':'') l), trim_space (tl (dropWhile (\<lambda>c. c \<noteq> CHR '':'') l))).
        l \<leftarrow> takeWhile (\<lambda>l. \<not> has_prefix l ''['') (map (trim_right_set [CHR 0x0D, CHR 0x0A]) ls),
        CHR '':'' \<in> set l \<and> \<not> has_prefix l '':'' \<and> \<not> has_prefix l ''#'']"

lemma conf_pair_assignment:
  "conf_pair l =
     (if CHR '':'' \<in> set l \<and> \<not> has_prefix l '':''
      then Some (trim_space (takeWhile (\<lambda>c. c \<noteq> CHR '':'') l), trim_space (tl (dropWhile (\<lambda>c. c \<noteq> CHR '':'') l))) else None)"
  by (cases l) (auto simp: conf_pair_def cut_def Let_def drop_Suc)

lemma header_no_comment: "has_prefix l ''['' \<Longrightarrow> \<not> has_prefix l ''#''"
  by (cases l) auto

lemma conf_pairs_assignments: "conf_pairs ls = assignments ls"
  by (induction ls) (auto simp: assignments_def Let_def conf_pair_assignment dest: header_no_comment)

text \<open>C26: What a configuration says is what its file assigns in the default section: the raw map
  holds the last assignment of every key and no other key, the network map its keys that begin
  with \<open>net\<close>, tags, description and hook script are decoded from their last assignments, and the
  name is the last assignment of \<open>name\<close> or \<open>hostname\<close>.\<close>

theorem ReadVMConfig_fields:
  assumes "ReadVMConfig fs root k vmid = Inr cfg"
  shows "\<exists>path content failed. conf_path root k vmid = Some path \<and> fopen fs path = Inr (content, failed) \<and>
    vc_Kind cfg = k \<and> vc_VMID cfg = vmid \<and>
    (let ps = assignments (fst (scan_lines max_scan_token content))
     in vc_Raw cfg = map_of (rev ps) \<and> projected cfg \<and>
       vc_Name cfg = (case filter is_name ps of [] \<Rightarrow> [] | qs \<Rightarrow> snd (last qs)))"
proof -
  obtain path content failed where r: "conf_path root k vmid = Some path" "fopen fs path = Inr (content, failed)"
    and cfg: "cfg = conf_sets (assignments (fst (scan_lines max_scan_token content))) (empty_config k vmid)"
    using ReadVMConfig_loop [OF assms] by (auto simp: conf_pairs_assignments)
  have kv: "vc_Kind (conf_sets ps c) = vc_Kind c \<and> vc_VMID (conf_sets ps c) = vc_VMID c" for ps c
    unfolding conf_sets_def by (induction ps arbitrary: c) (auto simp: conf_set_def Let_def)
  show ?thesis
    by (rule exI [of _ path], rule exI [of _ content], rule exI [of _ failed])
      (simp add: r cfg kv raw_sets name_sets projected_sets projected_empty Let_def cong: list.case_cong)
qed

lemma ReadVMConfig_fields_witness:
  "\<exists>cfg. ReadVMConfig conf_fs ''/etc/pve'' KindQEMU 100 = Inr cfg \<and> vc_Name cfg = ''web'' \<and> vc_Tags cfg = [''prod'', ''db'']"
proof -
  have l: "fst (scan_lines max_scan_token sample_conf) = [''name: web'', ''tags: prod;db'', ''[snap]'', ''name: old'']"
    by (simp add: sample_conf_def max_scan_token_def str_simps)
  have a: "assignments [''name: web'', ''tags: prod;db'', ''[snap]'', ''name: old''] = [(''name'', ''web''), (''tags'', ''prod;db'')]"
    by (simp add: assignments_def str_simps)
  obtain cfg where r: "ReadVMConfig conf_fs ''/etc/pve'' KindQEMU 100 = Inr cfg"
    using conf_loop_stop [of "''[snap]''" "[''name: web'', ''tags: prod;db'']" "[''name: old'']" "empty_config KindQEMU 100"] l
    by (cases "scan_lines max_scan_token sample_conf")
      (simp add: ReadVMConfig_def sample_conf_path sample_conf_open)
  have "splitTags ''prod;db'' = [''prod'', ''db'']"
    by (simp add: splitTags_def tag_sep_def str_simps)
  then show ?thesis
    using ReadVMConfig_fields [OF r] r
    by (auto simp: sample_conf_path sample_conf_open l a is_name_def projected_def raw_or_def)
qed

text \<open>C32: Tags of printable ASCII characters as PVE writes them, joined by semicolons or commas, are
  read back as they were. A description is read back with the newlines that PVE had escaped
  exactly if it does not itself contain a backslash followed by an \<open>n\<close>, as in \<open>C:\new\<close>.\<close>

theorem tags_description_roundtrip:
  assumes "c = CHR '';'' \<or> c = CHR '',''"
    and "list_all (\<lambda>w. plain_word w \<and> CHR '';'' \<notin> set w \<and> CHR '','' \<notin> set w) tags"
  shows "splitTags (join [c] tags) = tags \<and>
    (unescapeDescription (escapeDescription d) = d) = (\<not> contains d [CHR 0x5C, CHR ''n''])"
proof
  have plain: "list_all plain (join [c] tags)"
    using assms(1,2) by (intro plain_join) (auto simp: plain_def less_eq_char_def plain_word_def list_all_iff)
  have "list_all (\<lambda>w. w \<noteq> [] \<and> list_all (\<lambda>c. \<not> tag_sep c) w) tags"
    using assms(2) plain_not_space by (fastforce simp: list_all_iff plain_word_def tag_sep_def ascii_space_def)
  then have f: "fields_func tag_sep (join [c] tags) = tags"
    using assms(1) by (intro fields_func_join) (auto simp: tag_sep_def)
  have "filter (\<lambda>p. p \<noteq> []) tags = tags"
    using assms(2) by (auto simp: list_all_iff plain_word_def filter_id_conv)
  moreover have "join [c] tags = [] \<Longrightarrow> tags = []"
    using f by (auto simp: fields_func_def)
  ultimately show "splitTags (join [c] tags) = tags"
    using f by (auto simp: splitTags_def Let_def trim_space_plain [OF plain])
  show "(unescapeDescription (escapeDescription d) = d) = (\<not> contains d [CHR 0x5C, CHR ''n''])"
    by (simp add: unescape_escape unescape_id)
qed

lemma tags_description_roundtrip_witness:
  "splitTags (join '';'' [''prod'', ''db'']) = [''prod'', ''db''] \<and>
   unescapeDescription (escapeDescription (''a'' @ [CHR 0x0A] @ ''b'')) = ''a'' @ [CHR 0x0A] @ ''b''"
  using tags_description_roundtrip [of "CHR '';''" "[''prod'', ''db'']" "''a'' @ [CHR 0x0A] @ ''b''"]
  by (simp add: plain_word_def plain_def has_prefix_def)

text \<open>C31: \<open>Members\<close> never answers with old news: what it returns is what the membership file
  said less than two seconds before the call or during it. It fails only if the file could not
  be read or decoded just then, and the cache is then what it was. In both cases the cache it
  leaves is sound, with a stamp that is not in the future, if it was so before and the clock does
  not go back during the call; so that this holds of every call.\<close>

theorem Members_fresh:
  assumes "cache_sound unmarshal env rd" and "rd_loaded rd \<le> now'" and "now \<le> now'"
    and "Members unmarshal (env now') now now' rd = (r, rd')"
  shows "cache_sound unmarshal env rd' \<and> rd_loaded rd' \<le> now' \<and> rd_root rd' = rd_root rd \<and>
    (case r of
       Inr m \<Rightarrow> \<exists>t. now - members_ttl < t \<and> t \<le> now' \<and> members_at unmarshal (env t) (rd_root rd) = Some m
     | Inl _ \<Rightarrow> rd' = rd \<and> members_at unmarshal (env now') (rd_root rd) = None)"
proof (cases "\<exists>m. rd_members rd = Some m \<and> now - rd_loaded rd < members_ttl")
  case True
  then obtain m where m: "rd_members rd = Some m" "now - rd_loaded rd < members_ttl" by blast
  then have "r = Inr m" "rd' = rd" using assms(4) by (auto simp: Members_def)
  moreover have "members_at unmarshal (env (rd_loaded rd)) (rd_root rd) = Some m"
    using assms(1) m(1) by (simp add: cache_sound_def)
  moreover have "now - members_ttl < rd_loaded rd" using m(2) by simp
  ultimately show ?thesis using assms(1,2) by auto
next
  case False
  then have reload: "reloadMembers unmarshal (env now') now' rd = (r, rd')"
    using assms(4) by (auto simp: Members_def split: option.splits if_splits)
  have "rd_loaded rd' \<le> now'" "case r of Inl _ \<Rightarrow> rd' = rd | Inr _ \<Rightarrow> True"
    using reload assms(2) by (auto simp: reloadMembers_def split: sum.splits option.splits)
  then show ?thesis
    using reload_sound [of unmarshal env now', OF reload] assms(1,3)
    by (auto simp: members_ttl_def split: sum.splits intro!: exI [of _ now'])
qed

definition sample_members :: members where
  "sample_members = \<lparr>mb_NodeName = ''pve1'',
     mb_Cluster = \<lparr>ci_Name = ''lab'', ci_Nodes = 2, ci_Quorate = 1, ci_Version = 1\<rparr>,
     mb_NodeList = [(''pve1'', \<lparr>nd_ID = 1, nd_Online = 1, nd_IP = ''10.0.0.1''\<rparr>),
                    (''pve2'', \<lparr>nd_ID = 2, nd_Online = 1, nd_IP = ''10.0.0.2''\<rparr>)]\<rparr>"

lemma Members_fresh_witness:
  "\<exists>t. 5 - members_ttl < t \<and> t \<le> 6 \<and>
     members_at (\<lambda>_. Some sample_members) (fs_of [(''/etc/pve/.members'', RegFile (Inr []))]) ''/etc/pve'' = Some sample_members"
proof -
  let ?fs = "fs_of [(''/etc/pve/.members'', RegFile (Inr []))]"
  have "path_join [''/etc/pve'', MembersFile] = ''/etc/pve/.members''"
    by (simp add: path_join_def path_clean_def MembersFile_def str_simps)
  then have "Members (\<lambda>_. Some sample_members) ?fs 5 6 (Reader_New []) =
      (Inr sample_members, (Reader_New [])\<lparr>rd_members := Some sample_members, rd_loaded := 6\<rparr>)"
    by (simp add: Members_def Reader_New_def reloadMembers_def fs_of_def str_simps)
  then show ?thesis
    using Members_fresh [of "\<lambda>_. Some sample_members" "\<lambda>_. ?fs" "Reader_New []" 6 5]
    by (auto simp: cache_sound_def Reader_New_def)
qed

text \<open>\<open>VMList\<close> lists every VM that has a configuration file in the place where
  \<open>ReadVMConfig\<close> looks for it, and nothing that is not the number of a \<open>.conf\<close> file; a
  directory that does not exist counts as empty.\<close>

theorem VMList_complete:
  assumes "VMList fs root = Inr (q, l)"
  shows "set q = {i. \<exists>es name d. read_dir fs (path_join [root, ''qemu-server'']) = Inr es \<and>
                 (name, d) \<in> set es \<and> conf_id name = Some i} \<and>
    set l = {i. \<exists>es name d. read_dir fs (path_join [root, ''lxc'']) = Inr es \<and>
                 (name, d) \<in> set es \<and> conf_id name = Some i} \<and>
    (int64 i \<longrightarrow> conf_id (show_int i @ ''.conf'') = Some i)"
proof -
  have "listConfigDir fs (path_join [root, ''qemu-server'']) = Inr q" "listConfigDir fs (path_join [root, ''lxc'']) = Inr l"
    using assms by (auto simp: VMList_def split: sum.splits)
  then show ?thesis
    by (simp add: listConfigDir_set conf_id_def atoi_show_int)
qed

lemma VMList_complete_witness:
  "VMList conf_fs ''/etc/pve'' = Inr ([100], []) \<and> conf_id (show_int 100 @ ''.conf'') = Some 100"
proof -
  have "path_join [''/etc/pve'', ''qemu-server''] = ''/etc/pve/qemu-server''"
    "path_join [''/etc/pve'', ''lxc''] = ''/etc/pve/lxc''"
    by (simp_all add: path_join_def path_clean_def str_simps)
  then have "VMList conf_fs ''/etc/pve'' = Inr ([100], [])"
    by (simp add: VMList_def listConfigDir_def read_dir_def conf_fs_def fs_of_def conf_id_def str_simps)
  from this VMList_complete [OF this, THEN conjunct2, THEN conjunct2, of 100] show ?thesis
    by (simp add: int64_def)
qed

end
