(* ===== verification/Enrich.thy ===== *)
theory Enrich
  imports Watcher Pmxcfs
begin

text \<open>
  The enricher (\<open>internal/enrich/enrich.go\<close>): a task event becomes a CloudEvent with the
  configuration of its VM and, for a migration, the target node, which is looked for in the
  arguments of the migration process, in the task log, and in the cache of targets found
  before. File systems, clock and delays are arguments: \<open>env t\<close> is the file system at time
  \<open>t\<close>.
\<close>

section \<open>Names of nodes\<close>

definition node_char :: "char \<Rightarrow> bool" where
  "node_char c \<longleftrightarrow>
     char_range CHR ''a'' CHR ''z'' c \<or> char_range CHR ''A'' CHR ''Z'' c \<or>
     char_range CHR ''0'' CHR ''9'' c \<or> c \<in> {CHR ''-'', CHR ''_'', CHR ''.''}"

definition looksLikeNode :: "string \<Rightarrow> bool" where
  "looksLikeNode s \<longleftrightarrow>
     s \<noteq> [] \<and> \<not> has_prefix s ''-'' \<and> atoi s = None \<and> list_all node_char s"

section \<open>The arguments of the migration process\<close>

definition splitCmdline :: "string \<Rightarrow> string list" where
  "splitCmdline b = filter (\<lambda>p. p \<noteq> []) (split_on CHR 0x00 b)"

definition lastPathElement :: "string \<Rightarrow> string" where
  "lastPathElement s = rev (takeWhile (\<lambda>c. c \<noteq> CHR ''/'') (rev s))"

definition splitKV :: "string \<Rightarrow> (string \<times> string) option" where
  "splitKV s =
     (let (key, val, found) = cut s CHR ''=''
      in if \<not> found then None
         else
           let key = trim_left_set ''-'' (trim_space key); val = trim_space val
           in if key = [] \<or> val = [] then None else Some (key, val))"

text \<open>One argument of \<open>parseTargetOption\<close>, with the arguments after it.\<close>

definition option_at :: "string \<Rightarrow> string list \<Rightarrow> string" where
  "option_at a rest =
     (let arg = trim_space a
      in if arg = [] then []
         else
           let kv = (case splitKV arg of
                 None \<Rightarrow> []
               | Some (k, v) \<Rightarrow>
                   if to_lower k \<in> {''target'', ''targetnode'', ''target_node'', ''node'', ''to''} \<and> looksLikeNode v
                   then v else [])
           in if kv \<noteq> [] then kv
              else if to_lower arg \<in> {''--target'', ''-target'', ''--target-node'', ''--targetnode'', ''--to''}
              then (case rest of [] \<Rightarrow> [] | n # _ \<Rightarrow> if looksLikeNode n then n else [])
              else [])"

fun parseTargetOption :: "string list \<Rightarrow> string" where
  "parseTargetOption [] = []"
| "parseTargetOption (a # rest) =
     (let t = option_at a rest in if t \<noteq> [] then t else parseTargetOption rest)"

text \<open>The positional scan: the first number is the VM id, what looks like a node then is the target.\<close>

fun positional :: "bool \<Rightarrow> string list \<Rightarrow> string" where
  "positional seenVMID [] = []"
| "positional seenVMID (arg # rest) =
     (if arg = [] \<or> has_prefix arg ''-'' then positional seenVMID rest
      else case splitKV arg of
          Some (k, v) \<Rightarrow>
            if to_lower k \<in> {''target'', ''targetnode'', ''target_node'', ''node''}
            then (if looksLikeNode v then v else positional seenVMID rest)
            else if to_lower k \<in> {''vmid'', ''id''}
            then positional (seenVMID \<or> atoi v \<noteq> None) rest
            else positional seenVMID rest
        | None \<Rightarrow>
            if \<not> seenVMID then positional (atoi arg \<noteq> None) rest
            else if looksLikeNode arg then arg
            else positional seenVMID rest)"

definition parseTargetAfterMigrate :: "string list \<Rightarrow> string" where
  "parseTargetAfterMigrate args =
     (let t = parseTargetOption args in if t \<noteq> [] then t else positional False args)"

text \<open>The loop over \<open>qm migrate\<close>, \<open>pct migrate\<close> and the worker names.\<close>

fun tool_loop :: "string list \<Rightarrow> string" where
  "tool_loop [] = []"
| "tool_loop (a # rest) =
     (let base = to_lower (lastPathElement a);
          t = (if base \<in> {''qm'', ''pct''}
               then (case rest of
                       [] \<Rightarrow> []
                     | m # rest' \<Rightarrow> if equal_fold_ascii m ''migrate'' then parseTargetAfterMigrate rest' else [])
               else if base \<in> {''qmigrate'', ''vzmigrate''} then parseTargetAfterMigrate rest
               else [])
      in if t \<noteq> [] then t else tool_loop rest)"

fun migrate_loop :: "string list \<Rightarrow> string" where
  "migrate_loop [] = []"
| "migrate_loop (a # rest) =
     (let t = (if equal_fold_ascii a ''migrate'' then parseTargetAfterMigrate rest else [])
      in if t \<noteq> [] then t else migrate_loop rest)"

definition parseMigrateTarget :: "string list \<Rightarrow> string" where
  "parseMigrateTarget args =
     (if args = [] then []
      else
        let t = parseTargetOption args
        in if t \<noteq> [] then t
           else let t = tool_loop args in if t \<noteq> [] then t else migrate_loop args)"

section \<open>The task log\<close>

text \<open>
  The regular expression of the log, matched as Go does: leftmost, the alternatives in order,
  repetitions greedy. Its \<open>\s\<close> is ASCII, and its case-insensitive classes contain the two
  non-ASCII characters that fold to \<open>s\<close> and \<open>k\<close> (U+017F and U+212A). No repetition can
  gain by giving back what it took: what follows a run of white space, an optional quote or
  an optional \<open>node\<close> never starts with the same characters.
\<close>

definition re_space :: "char \<Rightarrow> bool" where
  "re_space c \<longleftrightarrow> c \<in> {CHR 0x09, CHR 0x0A, CHR 0x0C, CHR 0x0D, CHR '' ''}"

definition re_ws :: "string \<Rightarrow> string" where
  "re_ws s = dropWhile re_space s"

definition re_ws1 :: "string \<Rightarrow> string option" where
  "re_ws1 s = (case s of [] \<Rightarrow> None | c # t \<Rightarrow> if re_space c then Some (re_ws t) else None)"

text \<open>A literal word in any case; the words have no \<open>s\<close> and no \<open>k\<close>.\<close>

definition re_word :: "string \<Rightarrow> string \<Rightarrow> string option" where
  "re_word w s = (if map lower_char (take (length w) s) = w then Some (drop (length w) s) else None)"

text \<open>The length of the character of the class at the head, 0 if there is none.\<close>

definition re_alnum_len :: "string \<Rightarrow> nat" where
  "re_alnum_len s =
     (case s of
        [] \<Rightarrow> 0
      | c # t \<Rightarrow>
          if char_range CHR ''a'' CHR ''z'' (lower_char c) \<or> char_range CHR ''0'' CHR ''9'' c then 1
          else if has_prefix s [CHR 0xC5, CHR 0xBF] then 2
          else if has_prefix s [CHR 0xE2, CHR 0x84, CHR 0xAA] then 3
          else 0)"

definition re_name_len :: "string \<Rightarrow> nat" where
  "re_name_len s =
     (case s of
        [] \<Rightarrow> 0
      | c # t \<Rightarrow> if c \<in> {CHR ''.'', CHR ''_'', CHR ''-''} then 1 else re_alnum_len s)"

fun re_name_rest :: "string \<Rightarrow> string" where
  "re_name_rest [] = []"
| "re_name_rest (c # t) =
     (let n = re_name_len (c # t)
      in if n = 0 then [] else take n (c # t) @ re_name_rest (drop (n - 1) t))"

definition re_quote :: "string \<Rightarrow> string" where
  "re_quote s =
     (case s of [] \<Rightarrow> [] | c # t \<Rightarrow> if c = CHR 0x22 \<or> c = CHR 0x27 then t else s)"

text \<open>The optional quote and the captured name.\<close>

definition re_capture :: "string \<Rightarrow> string option" where
  "re_capture s =
     (let s = re_quote s; n = re_alnum_len s
      in if n = 0 then None else Some (take n s @ re_name_rest (drop n s)))"

definition re_assign :: "string \<Rightarrow> string option" where
  "re_assign s =
     (case re_ws s of
        [] \<Rightarrow> None
      | c # t \<Rightarrow> if c = CHR ''='' \<or> c = CHR '':'' then re_capture (re_ws t) else None)"

definition re_target :: "string \<Rightarrow> string option" where
  "re_target s =
     (case re_word ''target'' s of
        None \<Rightarrow> None
      | Some t \<Rightarrow>
          let with_node = (case t of
                [] \<Rightarrow> None
              | c # u \<Rightarrow>
                  if c = CHR ''_'' \<or> c = CHR '' ''
                  then Option.bind (re_word ''node'' u) re_assign else None)
          in (case with_node of Some m \<Rightarrow> Some m | None \<Rightarrow> re_assign t))"

definition re_to_node :: "string \<Rightarrow> string option" where
  "re_to_node s =
     Option.bind (re_word ''to'' s) (\<lambda>t.
     Option.bind (re_ws1 t) (\<lambda>t.
     Option.bind (re_word ''node'' t) (\<lambda>t.
     Option.bind (re_ws1 t) re_capture)))"

definition re_to :: "string \<Rightarrow> string option" where
  "re_to s = Option.bind (re_word ''to'' s) (\<lambda>t. Option.bind (re_ws1 t) re_capture)"

definition re_at :: "string \<Rightarrow> string option" where
  "re_at s = first_some (\<lambda>f. f s) [re_target, re_to_node, re_to]"

fun migrateTargetLogRe :: "string \<Rightarrow> string option" where
  "migrateTargetLogRe [] = re_at []"
| "migrateTargetLogRe (c # t) =
     (case re_at (c # t) of Some m \<Rightarrow> Some m | None \<Rightarrow> migrateTargetLogRe t)"

definition parseMigrateTargetFromLog :: "string \<Rightarrow> string" where
  "parseMigrateTargetFromLog s =
     (case migrateTargetLogRe s of
        None \<Rightarrow> []
      | Some m \<Rightarrow> if looksLikeNode m then m else [])"

section \<open>The enricher and its cache\<close>

record enricher =
  en_Cluster :: string
  en_Node :: string
  en_Reader :: string
  en_ProcRoot :: string
  en_TasksRoot :: string
  en_Wait :: int
  en_Poll :: int
  en_targets :: "(string \<rightharpoonup> string) option"

definition procRoot :: "enricher \<Rightarrow> string" where
  "procRoot e = (if en_ProcRoot e = [] then ''/proc'' else en_ProcRoot e)"

definition tasksRoot :: "enricher \<Rightarrow> string" where
  "tasksRoot e = (if en_TasksRoot e = [] then ''/var/log/pve/tasks'' else en_TasksRoot e)"

definition migrateTargetWait :: "enricher \<Rightarrow> int" where
  "migrateTargetWait e = (if 0 < en_Wait e then en_Wait e else 2 * 1000000000)"

definition migrateTargetPoll :: "enricher \<Rightarrow> int" where
  "migrateTargetPoll e = (if 0 < en_Poll e then en_Poll e else 100 * 1000000)"

definition rememberMigrateTarget :: "string \<Rightarrow> string \<Rightarrow> enricher \<Rightarrow> enricher" where
  "rememberMigrateTarget upidRaw target e =
     (if upidRaw = [] \<or> target = [] then e
      else
        let m = (case en_targets e of None \<Rightarrow> Map.empty | Some m \<Rightarrow> m)
        in e\<lparr>en_targets := Some (m(upidRaw \<mapsto> target))\<rparr>)"

definition recallMigrateTarget :: "string \<Rightarrow> enricher \<Rightarrow> string" where
  "recallMigrateTarget upidRaw e =
     (case en_targets e of
        None \<Rightarrow> []
      | Some m \<Rightarrow> (case m upidRaw of None \<Rightarrow> [] | Some t \<Rightarrow> t))"

definition forgetMigrateTarget :: "string \<Rightarrow> enricher \<Rightarrow> enricher" where
  "forgetMigrateTarget upidRaw e =
     (case en_targets e of None \<Rightarrow> e | Some m \<Rightarrow> e\<lparr>en_targets := Some (m(upidRaw := None))\<rparr>)"

section \<open>Finding the target\<close>

definition migrateTarget :: "enricher \<Rightarrow> fs \<Rightarrow> upid \<Rightarrow> string" where
  "migrateTarget e fs u =
     (case read_file fs (procRoot e @ ''/'' @ show_int (up_PID u) @ ''/cmdline'') of
        Inl _ \<Rightarrow> []
      | Inr cmdline \<Rightarrow> parseMigrateTarget (splitCmdline cmdline))"

definition migrateTargetFromTaskLog :: "enricher \<Rightarrow> fs \<Rightarrow> upid \<Rightarrow> string" where
  "migrateTargetFromTaskLog e fs u =
     (let logFile = FindLogFile fs (tasksRoot e) (up_Raw u)
      in if logFile = [] then []
         else (case read_file fs logFile of
             Inl _ \<Rightarrow> []
           | Inr b \<Rightarrow> parseMigrateTargetFromLog b))"

text \<open>
  The wait for the target: until the deadline, sleep for the poll interval and look again.
  \<open>delay t\<close> is what a round that starts at \<open>t\<close> takes beyond the interval; the interval is
  positive in every enricher (\<open>migrateTargetPoll\<close>), which \<open>max 1\<close> repeats for the totality
  of the function. The result comes with the time at which the loop ends.
\<close>

function wait_loop :: "(time \<Rightarrow> string) \<Rightarrow> (time \<Rightarrow> nat) \<Rightarrow> int \<Rightarrow> time \<Rightarrow> time \<Rightarrow> string \<times> time" where
  "wait_loop look delay poll deadline t =
     (if t < deadline then
        let t' = t + max 1 poll + int (delay t); target = look t'
        in if target \<noteq> [] then (target, t') else wait_loop look delay poll deadline t'
      else ([], t))"
  by pat_completeness auto
termination
  by (relation "measure (\<lambda>(look, delay, poll, deadline, t). nat (deadline - t))") auto

declare wait_loop.simps [simp del]

definition resolveMigrateTarget ::
    "enricher \<Rightarrow> (time \<Rightarrow> fs) \<Rightarrow> (time \<Rightarrow> nat) \<Rightarrow> time \<Rightarrow> task_event \<Rightarrow> string \<times> time" where
  "resolveMigrateTarget e env delay now inp =
     (let t1 = migrateTarget e (env now) (tev_UPID inp)
      in if t1 \<noteq> [] then (t1, now)
         else
           let t2 = migrateTargetFromTaskLog e (env now) (tev_UPID inp)
           in if t2 \<noteq> [] then (t2, now)
              else if tev_Phase inp \<noteq> PhaseStarted then ([], now)
              else wait_loop (\<lambda>t. migrateTargetFromTaskLog e (env t) (tev_UPID inp)) delay
                     (migrateTargetPoll e) (now + migrateTargetWait e) now)"

section \<open>The event\<close>

definition terminal :: "phase \<Rightarrow> bool" where
  "terminal p \<longleftrightarrow> p = PhaseFinished \<or> p = PhaseFailed"

text \<open>\<open>Duration.Milliseconds\<close>: a quotient truncated towards zero.\<close>

definition milliseconds :: "int \<Rightarrow> int" where
  "milliseconds d = sgn d * (\<bar>d\<bar> div 1000000)"

text \<open>The fields that come from the VM's configuration.\<close>

definition with_config :: "conf_error + vm_config \<Rightarrow> event_data \<Rightarrow> event_data" where
  "with_config r data =
     (case r of
        Inl _ \<Rightarrow> data
      | Inr cfg \<Rightarrow>
          data\<lparr>ed_Name := vc_Name cfg, ed_Tags := vc_Tags cfg, ed_Description := vc_Description cfg,
               ed_HookScript := vc_HookScript cfg\<rparr>)"

text \<open>
  The migration part: the target found or recalled, and the new cache. A finished or failed
  event clears the cache's entry.
\<close>

definition migrate_part :: "task_event \<Rightarrow> string \<Rightarrow> enricher \<Rightarrow> string \<times> enricher" where
  "migrate_part inp resolved e =
     (let target = (if resolved = [] then recallMigrateTarget (raw_of inp) e else resolved);
          e = (if target \<noteq> [] \<and> tev_Phase inp = PhaseStarted
               then rememberMigrateTarget (raw_of inp) target e else e);
          e = (if terminal (tev_Phase inp) then forgetMigrateTarget (raw_of inp) e else e)
      in (target, e))"

text \<open>\<open>Lifecycle\<close>, with the id of the event and the duration of looking up the target.\<close>

definition Lifecycle ::
    "(time \<Rightarrow> fs) \<Rightarrow> (time \<Rightarrow> nat) \<Rightarrow> string \<Rightarrow> time \<Rightarrow> task_event \<Rightarrow> time \<Rightarrow> enricher
       \<Rightarrow> cloud_event \<times> enricher \<times> time" where
  "Lifecycle env delay uid now inp taskStart e =
     (let u = tev_UPID inp; vmid = VMID u;
          data = zero_data\<lparr>ed_Cluster := en_Cluster e, ed_Node := en_Node e, ed_Kind := tev_Kind inp,
                   ed_VMID := vmid, ed_Action := tev_Action inp, ed_Phase := tev_Phase inp,
                   ed_UPID := up_Raw u, ed_User := up_User u, ed_SourceNode := en_Node e\<rparr>;
          data = with_config (ReadVMConfig (env now) (en_Reader e) (tev_Kind inp) vmid) data;
          (data, e, now) =
            (if tev_Action inp = ActionMigrate then
               let (resolved, now) = resolveMigrateTarget e env delay now inp;
                   (target, e) = migrate_part inp resolved e
               in (if target \<noteq> [] then data\<lparr>ed_TargetNode := target\<rparr> else data, e, now)
             else (data, e, now));
          data = (if terminal (tev_Phase inp) then
                    (if taskStart \<noteq> 0 then data\<lparr>ed_DurationMS := Some (milliseconds (now - taskStart))\<rparr> else data)
                      \<lparr>ed_ExitStatus := tev_Status inp\<rparr>
                  else data)
      in (New uid now (TypeFor (tev_Kind inp) (tev_Action inp) (tev_Phase inp))
            (SourceFor (en_Cluster e) (en_Node e)) (SubjectFor (tev_Kind inp) vmid) data,
          e, now))"

section \<open>The interface of the cache\<close>

text \<open>
  What \<open>Lifecycle\<close> needs of the cache of targets: an entry is what was remembered last and
  not forgotten since; nothing is remembered under an empty name or as an empty target.
\<close>

locale target_cache =
  fixes remember :: "string \<Rightarrow> string \<Rightarrow> 's \<Rightarrow> 's"
    and recall :: "string \<Rightarrow> 's \<Rightarrow> string"
    and forget :: "string \<Rightarrow> 's \<Rightarrow> 's"
  assumes recall_remember: "u \<noteq> [] \<Longrightarrow> t \<noteq> [] \<Longrightarrow> recall u' (remember u t s) = (if u' = u then t else recall u' s)"
    and remember_blank: "u = [] \<or> t = [] \<Longrightarrow> remember u t s = s"
    and recall_forget: "recall u' (forget u s) = (if u' = u then [] else recall u' s)"
begin

text \<open>One event of a migration: remember a started target, forget at the end.\<close>

definition event :: "phase \<Rightarrow> string \<Rightarrow> string \<Rightarrow> 's \<Rightarrow> string \<times> 's" where
  "event p u resolved s =
     (let target = (if resolved = [] then recall u s else resolved);
          s = (if target \<noteq> [] \<and> p = PhaseStarted then remember u target s else s);
          s = (if terminal p then forget u s else s)
      in (target, s))"

lemma terminal_started [simp]: "\<not> terminal PhaseStarted"
  by (simp add: terminal_def)

lemma event_started:
  "u \<noteq> [] \<Longrightarrow> recall u (snd (event PhaseStarted u resolved s)) =
     (if resolved = [] then recall u s else resolved)"
  by (auto simp: event_def Let_def recall_remember)

lemma event_terminal: "terminal p \<Longrightarrow> recall u (snd (event p u resolved s)) = []"
  by (auto simp: event_def Let_def recall_forget)

lemma event_other: "u' \<noteq> u \<Longrightarrow> recall u' (snd (event p u resolved s)) = recall u' s"
  by (cases "u = []") (auto simp: event_def Let_def recall_forget recall_remember remember_blank)

lemma event_target: "fst (event p u resolved s) = (if resolved = [] then recall u s else resolved)"
  by (simp add: event_def Let_def)

text \<open>
  A started event found \<open>t\<close>; whatever other tasks do in between, the next event of the task
  has \<open>t\<close> unless it finds a target itself, and leaves no entry if it is terminal.
\<close>

lemma started_then_end:
  assumes "u \<noteq> []" and "t \<noteq> []" and "terminal p" and "\<forall>(p, u', r) \<in> set es. u' \<noteq> u"
    and "s1 = snd (event PhaseStarted u t s)"
    and "s2 = fold (\<lambda>(p, u', r) s. snd (event p u' r s)) es s1"
  shows "fst (event p u [] s2) = t \<and> recall u (snd (event p u [] s2)) = []"
proof -
  have "recall u (fold (\<lambda>(p, u', r) s. snd (event p u' r s)) es s1) = recall u s1"
    using assms(4) by (induction es arbitrary: s1) (auto simp: event_other)
  then show ?thesis
    using assms by (simp add: event_target event_terminal event_started)
qed

end

interpretation targets: target_cache rememberMigrateTarget recallMigrateTarget forgetMigrateTarget
  by unfold_locales
    (auto simp: rememberMigrateTarget_def recallMigrateTarget_def forgetMigrateTarget_def Let_def split: option.splits)

lemma migrate_part_event:
  "migrate_part inp resolved e = targets.event (tev_Phase inp) (raw_of inp) resolved e"
  by (simp add: migrate_part_def targets.event_def Let_def)

section \<open>Everything found looks like a node\<close>

lemma option_at_node: "option_at a rest \<noteq> [] \<Longrightarrow> looksLikeNode (option_at a rest)"
  by (auto simp: option_at_def Let_def split: option.splits list.splits if_splits)

lemma parseTargetOption_node: "parseTargetOption args \<noteq> [] \<Longrightarrow> looksLikeNode (parseTargetOption args)"
  by (induction args) (auto simp: Let_def option_at_node)

lemma positional_found: "positional b args = [] \<or> looksLikeNode (positional b args)"
proof (induction args arbitrary: b)
  case (Cons a args)
  let ?Q = "\<lambda>t. t = [] \<or> looksLikeNode t"
  have node: "?Q y \<Longrightarrow> ?Q (if looksLikeNode x then x else y)" for x y by simp
  have choose: "?Q x \<Longrightarrow> ?Q y \<Longrightarrow> ?Q (if c then x else y)" for c x y by simp
  show ?case
  proof (cases "splitKV a")
    case None
    show ?thesis unfolding positional.simps None option.case by (intro node choose Cons.IH)
  next
    case (Some kv)
    obtain k v where kv: "kv = (k, v)" by (cases kv)
    show ?thesis unfolding positional.simps Some kv option.case prod.case by (intro node choose Cons.IH)
  qed
qed simp

lemma positional_node: "positional b args \<noteq> [] \<Longrightarrow> looksLikeNode (positional b args)"
  using positional_found by blast

lemma parseTargetAfterMigrate_node:
  "parseTargetAfterMigrate args \<noteq> [] \<Longrightarrow> looksLikeNode (parseTargetAfterMigrate args)"
  by (auto simp: parseTargetAfterMigrate_def Let_def parseTargetOption_node positional_node)

lemma tool_loop_node: "tool_loop args \<noteq> [] \<Longrightarrow> looksLikeNode (tool_loop args)"
proof (induction args)
  case (Cons a rest)
  define t where "t = (if to_lower (lastPathElement a) \<in> {''qm'', ''pct''}
      then (case rest of [] \<Rightarrow> []
            | m # rest' \<Rightarrow> if equal_fold_ascii m ''migrate'' then parseTargetAfterMigrate rest' else [])
      else if to_lower (lastPathElement a) \<in> {''qmigrate'', ''vzmigrate''} then parseTargetAfterMigrate rest
      else [])"
  have e: "tool_loop (a # rest) = (if t \<noteq> [] then t else tool_loop rest)"
    by (simp add: t_def Let_def)
  have "t = [] \<or> (\<exists>xs. t = parseTargetAfterMigrate xs)"
    unfolding t_def by (cases rest) auto
  then show ?case using Cons unfolding e by (auto simp: parseTargetAfterMigrate_node split: if_splits)
qed simp

lemma migrate_loop_node: "migrate_loop args \<noteq> [] \<Longrightarrow> looksLikeNode (migrate_loop args)"
  by (induction args) (auto simp: Let_def parseTargetAfterMigrate_node split: if_splits)

lemma parseMigrateTarget_node: "parseMigrateTarget args \<noteq> [] \<Longrightarrow> looksLikeNode (parseMigrateTarget args)"
  by (auto simp: parseMigrateTarget_def Let_def parseTargetOption_node tool_loop_node migrate_loop_node)

lemma parseMigrateTargetFromLog_node:
  "parseMigrateTargetFromLog s \<noteq> [] \<Longrightarrow> looksLikeNode (parseMigrateTargetFromLog s)"
  by (auto simp: parseMigrateTargetFromLog_def split: option.splits if_splits)

section \<open>The command line\<close>

text \<open>An argument that is not an option naming the target, and one that names no tool.\<close>

definition quiet :: "string \<Rightarrow> bool" where
  "quiet a \<longleftrightarrow> CHR ''='' \<notin> set a \<and>
     to_lower (trim_space a) \<notin> {''--target'', ''-target'', ''--target-node'', ''--targetnode'', ''--to''}"

definition tool :: "string \<Rightarrow> bool" where
  "tool a \<longleftrightarrow> to_lower (lastPathElement a) \<in> {''qm'', ''pct'', ''qmigrate'', ''vzmigrate''}"

lemma splitKV_None: "CHR ''='' \<notin> set a \<Longrightarrow> splitKV a = None"
  by (simp add: splitKV_def cut_not_found)

lemma quiet_option: "quiet a \<Longrightarrow> option_at a rest = []"
proof -
  assume q: "quiet a"
  then have "CHR ''='' \<notin> set (trim_space a)" using set_trim_space [of a] by (auto simp: quiet_def)
  then show ?thesis using q splitKV_None by (simp add: option_at_def quiet_def Let_def)
qed

lemma quiet_options: "list_all quiet args \<Longrightarrow> parseTargetOption args = []"
  by (induction args) (auto simp: quiet_option)

lemma lower_char_id: "\<not> char_range CHR ''A'' CHR ''Z'' c \<Longrightarrow> lower_char c = c"
  by (simp only: lower_char_def if_False)

lemma quiet_options_append: "list_all quiet args \<Longrightarrow> parseTargetOption (args @ rest) = parseTargetOption rest"
proof (induction args)
  case (Cons a args)
  then show ?case using quiet_option [of a] by simp
qed simp

lemma target_option:
  assumes "opt \<in> {''--target'', ''-target'', ''--target-node'', ''--targetnode'', ''--to''}" and "looksLikeNode n"
  shows "option_at opt (n # rest) = n"
proof -
  have "trim_space opt = opt \<and> to_lower opt = opt \<and> CHR ''='' \<notin> set opt"
    using assms(1) by (auto simp: trim_space_plain plain_def less_eq_char_def lower_char_id)
  moreover from this have "splitKV opt = None" by (simp add: splitKV_None)
  ultimately show ?thesis using assms by (auto simp: option_at_def Let_def)
qed

lemma node_char_plain: "node_char c \<Longrightarrow> plain c"
  by (auto simp: node_char_def plain_def less_eq_char_def)

lemma node_char_not: "node_char c \<Longrightarrow> c \<noteq> CHR ''='' \<and> c \<noteq> CHR 0xC4 \<and> c \<noteq> CHR 0xE2"
  by (auto simp: node_char_def less_eq_char_def)

lemma lower_char_dash: "lower_char c = CHR ''-'' \<longleftrightarrow> c = CHR ''-''"
proof
  assume l: "lower_char c = CHR ''-''"
  then have "(of_char (lower_char c) :: nat) = 45" by simp
  then have "\<not> char_range CHR ''A'' CHR ''Z'' c" by (auto simp: lower_char_def less_eq_char_def)
  then have "lower_char c = c" unfolding lower_char_def by (simp only: if_False)
  then show "c = CHR ''-''" using l by simp
qed (simp add: lower_char_def less_eq_char_def)

lemma node_quiet:
  assumes "looksLikeNode n"
  shows "quiet n \<and> n \<noteq> [] \<and> \<not> has_prefix n ''-'' \<and> splitKV n = None"
proof -
  have nc: "list_all node_char n" "n \<noteq> []" "\<not> has_prefix n ''-''"
    using assms by (simp_all add: looksLikeNode_def)
  then obtain c t where ct: "n = c # t" "node_char c" "c \<noteq> CHR ''-''" by (cases n) auto
  have eq: "CHR ''='' \<notin> set n" using nc(1) node_char_not by (auto simp: list_all_iff)
  have "trim_space n = n"
    using nc(1) by (intro trim_space_plain) (auto simp: list_all_iff node_char_plain)
  then have "\<not> has_prefix (to_lower (trim_space n)) ''-''"
    using ct node_char_not [OF ct(2)] by (simp add: lower_char_dash)
  then have "to_lower (trim_space n) \<notin> {''--target'', ''-target'', ''--target-node'', ''--targetnode'', ''--to''}"
    by auto
  then show ?thesis using eq nc splitKV_None by (simp add: quiet_def)
qed

lemma tool_loop_skip: "list_all (\<lambda>a. \<not> tool a) pre \<Longrightarrow> tool_loop (pre @ args) = tool_loop args"
  by (induction pre) (auto simp: tool_def)

lemma vmid_positional:
  assumes "int64 i" and "0 \<le> i"
  shows "quiet (show_int i) \<and> \<not> has_prefix (show_int i) ''-'' \<and>
    splitKV (show_int i) = None \<and> atoi (show_int i) = Some i"
proof -
  have digits: "list_all (\<lambda>c. char_range CHR ''0'' CHR ''9'' c) (show_int i)"
    using assms(2) show_nat_chars [of _ "nat i"] by (auto simp: show_int_def list_all_iff less_eq_char_def)
  obtain c t where ct: "show_int i = c # t" by (cases "show_int i") simp_all
  then have c: "char_range CHR ''0'' CHR ''9'' c" using digits by simp
  then have dash: "c \<noteq> CHR ''-''" "c \<noteq> CHR 0xC4" "c \<noteq> CHR 0xE2" by (auto simp: less_eq_char_def)
  have eq: "CHR ''='' \<notin> set (show_int i)" by (rule show_int_no) simp_all
  have "trim_space (show_int i) = show_int i" by (rule trim_space_plain_word [OF show_int_plain])
  then have "\<not> has_prefix (to_lower (trim_space (show_int i))) ''-''"
    using dash by (simp add: ct lower_char_dash)
  then have "to_lower (trim_space (show_int i)) \<notin> {''--target'', ''-target'', ''--target-node'', ''--targetnode'', ''--to''}"
    by auto
  then show ?thesis
    using eq dash splitKV_None [OF eq] atoi_show_int [OF assms(1)] by (simp add: quiet_def ct)
qed

lemma tool_migrate:
  assumes "to_lower (lastPathElement bin) \<in> {''qm'', ''pct''}" and "parseTargetAfterMigrate args = t" and "t \<noteq> []"
  shows "tool_loop (bin # ''migrate'' # args) = t"
  using assms by (auto simp: equal_fold_ascii_def Let_def)

lemma after_migrate:
  assumes "int64 i" and "0 \<le> i" and "looksLikeNode n" and "list_all quiet opts"
  shows "parseTargetAfterMigrate (show_int i # n # opts) = n"
proof -
  note v = vmid_positional [OF assms(1,2)] and t = node_quiet [OF assms(3)]
  have "parseTargetOption (show_int i # n # opts) = []"
    by (rule quiet_options) (use v t assms(4) in simp)
  moreover have "positional False (show_int i # n # opts) = n"
    using v t assms(3) by (simp add: looksLikeNode_def)
  ultimately show ?thesis using t by (simp add: parseTargetAfterMigrate_def)
qed

section \<open>The log line\<close>

lemma re_at_not_t: "lower_char c \<noteq> CHR ''t'' \<Longrightarrow> re_at (c # s) = None"
  by (simp add: re_at_def re_target_def re_to_node_def re_to_def re_word_def)

lemma log_skip: "list_all (\<lambda>c. lower_char c \<noteq> CHR ''t'') d \<Longrightarrow> migrateTargetLogRe (d @ s) = migrateTargetLogRe s"
  by (induction d) (auto simp: re_at_not_t)

lemma re_name_rest_node:
  "list_all node_char u \<Longrightarrow> re_name_rest (u @ CHR 0x27 # r) = u"
proof (induction u)
  case Nil
  then show ?case by (simp add: re_name_len_def re_alnum_len_def lower_char_def less_eq_char_def has_prefix_def)
next
  case (Cons c u)
  then have "re_name_len (c # u @ CHR 0x27 # r) = 1"
    by (auto simp: re_name_len_def re_alnum_len_def node_char_def lower_char_letter)
  then show ?case using Cons by (simp add: Let_def)
qed

text \<open>The line with which PVE opens the log of a migration, around its time stamp and names.\<close>

definition start_line :: "string \<Rightarrow> string \<Rightarrow> string \<Rightarrow> string" where
  "start_line stamp vmid node =
     stamp @ '' starting migration of VM '' @ vmid @ '' to node '' @ [CHR 0x27] @ node @ [CHR 0x27]"

lemma capture_node:
  assumes "looksLikeNode n" and "re_alnum_len n = 1"
  shows "re_capture (CHR 0x27 # n @ CHR 0x27 # rest) = Some n"
proof -
  obtain c t where n: "n = c # t" "list_all node_char t"
    using assms(1) by (cases n) (auto simp: looksLikeNode_def)
  have "re_alnum_len (c # t @ CHR 0x27 # rest) = 1"
    using assms by (auto simp: n looksLikeNode_def re_alnum_len_def has_prefix_def node_char_def less_eq_char_def split: if_splits)
  then show ?thesis
    using re_name_rest_node [OF n(2)] by (simp add: n re_capture_def re_quote_def Let_def)
qed

lemma starting_skip:
  "migrateTargetLogRe ('' starting migration of VM '' @ s) = migrateTargetLogRe s"
proof -
  have l: "lower_char CHR ''V'' = CHR ''v''" "lower_char CHR ''M'' = CHR ''m''"
    by (simp_all add: lower_char_def less_eq_char_def char_of_def bit_iff_odd_drop_bit drop_bit_eq_div)
  have ta: "re_at (CHR ''t'' # CHR ''a'' # CHR ''r'' # CHR ''t'' # u) = None" for u
    by (simp add: re_at_def re_target_def re_to_node_def re_to_def re_word_def lower_char_def less_eq_char_def)
  have ti: "re_at (CHR ''t'' # CHR ''i'' # u) = None" for u
    by (simp add: re_at_def re_target_def re_to_node_def re_to_def re_word_def lower_char_def less_eq_char_def)
  show ?thesis
    by (simp add: ta ti re_at_not_t l lower_char_id less_eq_char_def)
qed

lemma to_node_capture:
  assumes "re_capture s = Some n" and "s \<noteq> []" and "\<not> re_space (hd s)"
  shows "migrateTargetLogRe ('' to node '' @ s) = Some n"
proof -
  have "re_ws s = s" using assms(2,3) by (cases s) (simp_all add: re_ws_def)
  then have "re_at (''to node '' @ s) = Some n"
    using assms(1)
    by (simp add: re_at_def re_target_def re_to_node_def re_word_def re_ws1_def re_ws_def re_space_def
        lower_char_def less_eq_char_def)
  then show ?thesis
    by (simp add: re_at_not_t lower_char_def less_eq_char_def)
qed

lemma start_line_target:
  assumes "looksLikeNode n" and "re_alnum_len n = 1"
    and "list_all (\<lambda>c. lower_char c \<noteq> CHR ''t'') (stamp @ vmid)"
  shows "parseMigrateTargetFromLog (start_line stamp vmid n @ rest) = n"
proof -
  have "start_line stamp vmid n @ rest =
      stamp @ '' starting migration of VM '' @ vmid @ '' to node '' @ (CHR 0x27 # n @ CHR 0x27 # rest)"
    by (simp add: start_line_def)
  moreover have "migrateTargetLogRe \<dots> = Some n"
    using assms log_skip [of stamp] log_skip [of vmid]
      to_node_capture [OF capture_node [OF assms(1,2)], of rest]
    by (simp only: list_all_append starting_skip) (simp add: re_space_def)
  ultimately show ?thesis using assms(1) by (simp add: parseMigrateTargetFromLog_def)
qed

section \<open>The wait\<close>

lemma wait_loop_found:
  assumes "t < deadline" and "\<forall>t' \<ge> deadline. look t' \<noteq> []"
  shows "fst (wait_loop look delay poll deadline t) \<noteq> []"
  using assms
proof (induction look delay poll deadline t rule: wait_loop.induct)
  case (1 look delay poll deadline t)
  define t' where "t' = t + max 1 poll + int (delay t)"
  show ?case
  proof (cases "look t' = []")
    case True
    then have "t' < deadline" using "1.prems" by (meson not_le)
    then show ?thesis
      using "1.IH" [OF "1.prems"(1) t'_def refl] True "1.prems"
      by (subst wait_loop.simps) (simp add: Let_def t'_def [symmetric])
  next
    case False
    then show ?thesis using "1.prems"(1)
      by (subst wait_loop.simps) (simp add: Let_def t'_def [symmetric])
  qed
qed

lemma wait_loop_result:
  "wait_loop look delay poll deadline t = (r, t') \<Longrightarrow>
   t \<le> t' \<and> (r = [] \<or> r = look t') \<and>
   (\<forall>d. (\<forall>t. delay t \<le> d) \<longrightarrow> t' \<le> max t (deadline + max 1 poll + int d))"
proof (induction look delay poll deadline t rule: wait_loop.induct)
  case (1 look delay poll deadline t)
  define u where "u = t + max 1 poll + int (delay t)"
  have le: "u \<le> deadline + max 1 poll + int d" if "t < deadline" "\<forall>t. delay t \<le> d" for d
    using that(1) that(2) [THEN spec, of t] by (simp add: u_def)
  show ?case
  proof (cases "t < deadline")
    case True
    note unf = 1(2) [unfolded wait_loop.simps [of look delay poll deadline t] Let_def, folded u_def]
    show ?thesis
    proof (cases "look u = []")
      case True
      then have "wait_loop look delay poll deadline u = (r, t')" using unf \<open>t < deadline\<close> by simp
      then have ih: "u \<le> t' \<and> (r = [] \<or> r = look t') \<and>
          (\<forall>d. (\<forall>t. delay t \<le> d) \<longrightarrow> t' \<le> max u (deadline + max 1 poll + int d))"
        using 1(1) [OF \<open>t < deadline\<close> u_def refl] True by simp
      have "t' \<le> max t (deadline + max 1 poll + int d)" if d: "\<forall>t. delay t \<le> d" for d
      proof -
        have "t' \<le> max u (deadline + max 1 poll + int d)" using ih d by blast
        then show ?thesis using le [OF \<open>t < deadline\<close> d] by simp
      qed
      moreover have "t \<le> u" by (simp add: u_def)
      ultimately show ?thesis using ih by auto
    next
      case False
      have "(look u, u) = (r, t')"
        using unf unfolding if_P [OF \<open>t < deadline\<close>] if_P [OF False] .
      then have "r = look u" "t' = u" by blast+
      moreover have "t \<le> u" by (simp add: u_def)
      ultimately show ?thesis using le \<open>t < deadline\<close> by (metis max.coboundedI2)
    qed
  next
    case False
    then show ?thesis using 1(2) by (simp add: wait_loop.simps [of look delay poll deadline t])
  qed
qed

lemma wait_loop_last:
  "t < deadline \<Longrightarrow> fst (wait_loop look delay poll deadline t) = look (snd (wait_loop look delay poll deadline t))"
proof (induction look delay poll deadline t rule: wait_loop.induct)
  case (1 look delay poll deadline t)
  define u where "u = t + max 1 poll + int (delay t)"
  note unf = wait_loop.simps [of look delay poll deadline t, unfolded Let_def, folded u_def]
  show ?case
  proof (cases "look u = [] \<and> u < deadline")
    case True
    then show ?thesis using "1.IH" [OF "1.prems" u_def refl] "1.prems" by (simp add: unf)
  next
    case False
    then show ?thesis using "1.prems" wait_loop.simps [of look delay poll deadline u] by (auto simp: unf)
  qed
qed

text \<open>The first of several texts that is not empty.\<close>

definition first_found :: "string list \<Rightarrow> string" where
  "first_found ts = (case dropWhile (\<lambda>t. t = []) ts of [] \<Rightarrow> [] | t # _ \<Rightarrow> t)"

lemma resolve_first:
  assumes "resolveMigrateTarget e env delay now inp = (r, now')"
  shows "r = first_found [migrateTarget e (env now) (tev_UPID inp), migrateTargetFromTaskLog e (env now) (tev_UPID inp),
      migrateTargetFromTaskLog e (env now') (tev_UPID inp)] \<and> (tev_Phase inp \<noteq> PhaseStarted \<longrightarrow> now' = now)"
proof -
  let ?look = "\<lambda>t. migrateTargetFromTaskLog e (env t) (tev_UPID inp)"
  have "now < now + migrateTargetWait e" by (simp add: migrateTargetWait_def)
  from wait_loop_last [OF this, of ?look delay "migrateTargetPoll e"]
  show ?thesis using assms
    by (auto simp: resolveMigrateTarget_def first_found_def Let_def split: if_splits list.split)
qed

text \<open>What the configuration file of a VM assigns: nothing if it cannot be opened.\<close>

definition settings :: "fs \<Rightarrow> string \<Rightarrow> (string \<times> string) list" where
  "settings fs path =
     (case fopen fs path of Inl _ \<Rightarrow> [] | Inr (content, _) \<Rightarrow> assignments (fst (scan_lines max_scan_token content)))"

definition setting :: "(string \<times> string) list \<Rightarrow> string \<Rightarrow> string" where
  "setting ps k = (case map_of (rev ps) k of None \<Rightarrow> [] | Some v \<Rightarrow> v)"

text \<open>A file that is read without error, or cannot be opened.\<close>

definition intact :: "fs \<Rightarrow> string \<Rightarrow> bool" where
  "intact fs path \<longleftrightarrow>
     (case fopen fs path of Inl _ \<Rightarrow> True | Inr (content, failed) \<Rightarrow> \<not> failed \<and> \<not> snd (scan_lines max_scan_token content))"

lemma with_config_settings:
  assumes "conf_path root k vmid = Some path" and "intact fs path"
    and "ed_Name data = []" and "ed_Tags data = []" and "ed_Description data = []" and "ed_HookScript data = []"
  shows "with_config (ReadVMConfig fs root k vmid) data =
    data\<lparr>ed_Name := (case filter is_name (settings fs path) of [] \<Rightarrow> [] | qs \<Rightarrow> snd (last qs)),
         ed_Tags := splitTags (setting (settings fs path) ''tags''),
         ed_Description := unescapeDescription (setting (settings fs path) ''description''),
         ed_HookScript := setting (settings fs path) ''hookscript''\<rparr>"
proof (cases "fopen fs path")
  case (Inl err)
  then have "ReadVMConfig fs root k vmid = Inl (ConfOpen err)" using assms(1) by (simp add: ReadVMConfig_def)
  then show ?thesis using Inl assms(3-6)
    by (cases data) (simp add: with_config_def settings_def setting_def splitTags_def)
next
  case (Inr x)
  obtain content where x: "x = (content, False)" "\<not> snd (scan_lines max_scan_token content)"
    using assms(2) Inr by (cases x) (auto simp: intact_def)
  let ?ps = "settings fs path"
  let ?cfg = "conf_sets ?ps (empty_config k vmid)"
  have ps: "?ps = conf_pairs (fst (scan_lines max_scan_token content))"
    using Inr x by (simp add: settings_def conf_pairs_assignments)
  have "ReadVMConfig fs root k vmid = Inr ?cfg"
    using assms(1) Inr x unfolding ps conf_loop_pairs [symmetric]
    by (simp add: ReadVMConfig_def Let_def split_beta split: option.split)
  moreover have "projected ?cfg" "vc_Raw ?cfg = map_of (rev ?ps)"
    "vc_Name ?cfg = (case filter is_name ?ps of [] \<Rightarrow> [] | qs \<Rightarrow> snd (last qs))"
    by (simp_all add: projected_sets projected_empty raw_sets name_sets cong: list.case_cong)
  ultimately show ?thesis
    by (simp add: with_config_def projected_def raw_or_def setting_def splitTags_def split: option.split)
qed

lemma migrate_part_keeps:
  "en_Cluster (snd (migrate_part inp resolved e)) = en_Cluster e \<and>
   en_Node (snd (migrate_part inp resolved e)) = en_Node e"
  by (simp add: migrate_part_def Let_def rememberMigrateTarget_def forgetMigrateTarget_def split: option.split)

section \<open>Properties\<close>

text \<open>Whatever the process arguments or the log say, what is taken from them as the target
  of a migration is empty or looks like a node name: it never starts with a dash, is never a
  number, and has only letters, digits, dots, dashes and underscores.\<close>

theorem targets_look_like_nodes:
  "\<forall>t \<in> {parseMigrateTarget args, parseMigrateTargetFromLog log, parseTargetAfterMigrate args}.
     t \<noteq> [] \<longrightarrow> looksLikeNode t"
  by (simp add: parseMigrateTarget_node parseMigrateTargetFromLog_node parseTargetAfterMigrate_node)

lemma targets_look_like_nodes_witness:
  "looksLikeNode (parseTargetAfterMigrate [''100'', ''pve2''])"
proof -
  have "parseTargetAfterMigrate [''100'', ''pve2''] = ''pve2''"
    using after_migrate [of 100 "''pve2''" "[]"] show_int_100
    by (simp add: int64_def looksLikeNode_def node_char_def str_simps)
  then show ?thesis
    using targets_look_like_nodes [of "[''100'', ''pve2'']" "[]"] by simp
qed

text \<open>C29: The command line of a migration names its target. Let \<open>qm migrate\<close> or \<open>pct migrate\<close>, by any
  path, be followed by a VM id (not negative, of 64 bits) and a name that looks like a node's
  (letters, digits, dots, dashes and underscores, no dash in front and no 64-bit integer). Let the
  arguments before the tool, such as an interpreter with its options, contain no other such tool,
  and let them, the tool's path and the arguments after the name have no \<open>=\<close> and be no target
  option. The result is that node; but if a target option with another node follows, the result
  is the option's node.\<close>

theorem parseMigrateTarget_cli:
  assumes "int64 vmid" and "0 \<le> vmid" and "looksLikeNode n"
    and "quiet bin" and "to_lower (lastPathElement bin) \<in> {''qm'', ''pct''}"
    and "list_all quiet (pre @ opts)" and "list_all (\<lambda>a. \<not> tool a) pre"
    and "looksLikeNode n2" and "opt \<in> {''--target'', ''-target'', ''--target-node'', ''--targetnode'', ''--to''}"
  shows "parseMigrateTarget (pre @ [bin, ''migrate'', show_int vmid, n] @ opts) = n \<and>
    parseMigrateTarget (pre @ [bin, ''migrate'', show_int vmid, n] @ opts @ opt # n2 # rest) = n2"
proof -
  have q: "quiet ''migrate''"
    by (simp add: quiet_def trim_space_plain plain_def less_eq_char_def lower_char_id)
  have o: "list_all quiet opts" using assms(6) by simp
  have all: "list_all quiet (pre @ [bin, ''migrate'', show_int vmid, n] @ opts)"
    using assms(4,6) q vmid_positional [OF assms(1,2)] node_quiet [OF assms(3)] by simp
  from this have 1: "parseTargetOption (pre @ [bin, ''migrate'', show_int vmid, n] @ opts) = []"
    by (rule quiet_options)
  have "tool_loop (bin # ''migrate'' # show_int vmid # n # opts) = n"
    by (rule tool_migrate [OF assms(5) after_migrate [OF assms(1-3) o]])
      (use node_quiet [OF assms(3)] in simp)
  then have "tool_loop (pre @ [bin, ''migrate'', show_int vmid, n] @ opts) = n"
    using tool_loop_skip [OF assms(7)] by simp
  then have "parseMigrateTarget (pre @ [bin, ''migrate'', show_int vmid, n] @ opts) = n"
    using 1 node_quiet [OF assms(3)] by (simp add: parseMigrateTarget_def Let_def)
  moreover have "parseTargetOption ((pre @ [bin, ''migrate'', show_int vmid, n] @ opts) @ opt # n2 # rest) = n2"
    using quiet_options_append [OF all] target_option [OF assms(9,8)] node_quiet [OF assms(8)] by simp
  then have "parseMigrateTarget (pre @ [bin, ''migrate'', show_int vmid, n] @ opts @ opt # n2 # rest) = n2"
    using node_quiet [OF assms(8)] by (simp add: parseMigrateTarget_def Let_def)
  ultimately show ?thesis by blast
qed

lemma parseMigrateTarget_cli_witness:
  "parseMigrateTarget [''/usr/bin/perl'', ''-T'', ''/usr/sbin/qm'', ''migrate'', ''100'', ''pve2'', ''--online''] = ''pve2'' \<and>
   parseMigrateTarget [''/usr/bin/perl'', ''-T'', ''/usr/sbin/qm'', ''migrate'', ''100'', ''pve2'', ''--online'',
     ''--target'', ''pve3''] = ''pve3''"
  using parseMigrateTarget_cli [of 100 "''pve2''" "''/usr/sbin/qm''" "[''/usr/bin/perl'', ''-T'']" "[''--online'']"
      "''pve3''" "''--target''" "[]"]
  by (simp add: show_int_100 int64_def looksLikeNode_def node_char_def quiet_def tool_def lastPathElement_def
      trim_space_plain plain_def lower_char_id str_simps)

text \<open>C30: The first line of a migration's log, \<open>starting migration of VM ... to node '...'\<close>,
  yields the node between the quotes, whatever follows, if the time stamp and the VM id have
  no letter \<open>t\<close>, and the name looks like a node's (letters, digits, dots, dashes and
  underscores, and no 64-bit integer) and starts with a letter or a digit.\<close>

theorem parseMigrateTargetFromLog_start:
  assumes "looksLikeNode n" and "re_alnum_len n = 1"
    and "list_all (\<lambda>c. lower_char c \<noteq> CHR ''t'') (stamp @ vmid)"
  shows "parseMigrateTargetFromLog (start_line stamp vmid n @ rest) = n"
  using assms by (rule start_line_target)

lemma parseMigrateTargetFromLog_start_witness:
  "parseMigrateTargetFromLog (start_line ''2024-01-02 03:04:05'' ''100'' ''pve2'' @ '' (10.0.0.2)'') = ''pve2''"
  by (rule parseMigrateTargetFromLog_start)
    (simp_all add: looksLikeNode_def node_char_def re_alnum_len_def str_simps)


definition sample_enricher :: enricher where
  "sample_enricher = \<lparr>en_Cluster = ''lab'', en_Node = ''pve1'', en_Reader = ''/etc/pve'', en_ProcRoot = [],
     en_TasksRoot = ''/tasks'', en_Wait = 0, en_Poll = 0, en_targets = None\<rparr>"

definition sample_event :: "phase \<Rightarrow> string \<Rightarrow> task_event" where
  "sample_event p status = \<lparr>tev_UPID = sample_upid, tev_Kind = KindQEMU, tev_Action = ActionMigrate,
     tev_Phase = p, tev_Status = status, tev_ObsTime = 1\<rparr>"

text \<open>A log that appears half a second after the start.\<close>

definition late_log :: "time \<Rightarrow> fs" where
  "late_log t =
     (if t < 500000000 then fs_of []
      else fs_of [(''/tasks/'' @ sample_raw, RegFile (Inr (start_line ''2024-01-02 03:04:05'' ''100'' ''pve2'')))])"

lemma late_log_target:
  "migrateTargetFromTaskLog sample_enricher (late_log t) sample_upid = (if t < 500000000 then [] else ''pve2'')"
proof -
  let ?line = "start_line ''2024-01-02 03:04:05'' ''100'' ''pve2''"
  have "parseMigrateTargetFromLog (?line @ []) = ''pve2''"
    by (rule start_line_target) (simp_all add: looksLikeNode_def node_char_def re_alnum_len_def str_simps)
  moreover have "FindLogFile (fs_of []) ''/tasks'' sample_raw = []" by (rule FindLogFile_empty)
  ultimately show ?thesis
    using sample_direct [of "Inr ?line"]
    by (simp add: migrateTargetFromTaskLog_def late_log_def tasksRoot_def sample_enricher_def
        read_file_def fopen_def) (simp add: fs_of_def)
qed

lemma sample_wait:
  "migrateTargetWait sample_enricher = 2000000000" "migrateTargetPoll sample_enricher = 100000000"
  by (simp_all add: migrateTargetWait_def migrateTargetPoll_def sample_enricher_def)


text \<open>C9: The target found at the start of a migration is on its final event even if the
  process and the log are gone by then, whatever other tasks did to the cache in between, and
  the final event leaves nothing of the task in the cache.\<close>

theorem migrate_target_remembered:
  assumes "tev_Phase start = PhaseStarted" and "terminal (tev_Phase final)"
    and "raw_of start = u" and "raw_of final = u" and "u \<noteq> []" and "t \<noteq> []"
    and "\<forall>(inp, r) \<in> set others. raw_of inp \<noteq> u"
    and "e1 = snd (migrate_part start t e)"
    and "e2 = fold (\<lambda>(inp, r) e. snd (migrate_part inp r e)) others e1"
  shows "fst (migrate_part final [] e2) = t \<and>
    recallMigrateTarget u (snd (migrate_part final [] e2)) = []"
proof -
  let ?es = "map (\<lambda>(inp, r). (tev_Phase inp, raw_of inp, r)) others"
  have "e2 = fold (\<lambda>(p, u', r) e. snd (targets.event p u' r e)) ?es e1"
    by (simp add: assms(9) fold_map comp_def case_prod_unfold migrate_part_event)
  moreover have "\<forall>(p, u', r) \<in> set ?es. u' \<noteq> u" using assms(7) by auto
  ultimately show ?thesis
    using targets.started_then_end [OF assms(5,6,2), of ?es e1 e e2] assms(1,3,4,8)
    by (simp add: migrate_part_event)
qed

lemma migrate_target_remembered_witness:
  "fst (migrate_part (sample_event PhaseFinished ''OK'') []
     (snd (migrate_part (sample_event PhaseStarted []) ''pve2'' sample_enricher))) = ''pve2''"
  using migrate_target_remembered [of "sample_event PhaseStarted []" "sample_event PhaseFinished ''OK''" sample_raw
      "''pve2''" "[]" _ sample_enricher]
  by (simp add: sample_event_def raw_of_def terminal_def sample_no_space)

text \<open>C24: What a lifecycle event of a VM or container says, from what is on the host, for a task with a
  UPID. Its identity is the task's and the enricher's. Name, tags, description and hook script are those of the last assignments in the
  VM's configuration file (unset if the file cannot be opened; it is assumed that reading it does
  not break off). The duration, for a known start, and the exit status are given exactly on the
  final events. The target is given exactly on migrations, and is the first that is found: in the
  arguments of the process, in the log, in the log when a started event has waited for it, and in
  the cache, which then holds the target of a started event and nothing after a final one.\<close>

theorem Lifecycle_data:
  assumes "conf_path (en_Reader e) (tev_Kind inp) (VMID (tev_UPID inp)) = Some path" and "intact (env now) path"
    and "Lifecycle env delay uid now inp taskStart e = (ev, e', now')" and "raw_of inp \<noteq> []"
  shows "let d = ce_Data ev; conf = settings (env now) path; final = terminal (tev_Phase inp);
         migration = (tev_Action inp = ActionMigrate)
     in ce_ID ev = uid \<and> ce_Time ev = now' \<and>
        ce_Type ev = ''dev.proxmox.eventbus.'' @ tev_Kind inp @ ''.'' @ tev_Action inp @ ''.'' @ tev_Phase inp \<and>
        ce_Source ev = ''/pve/'' @ safe (en_Cluster e) @ ''/'' @ safe (en_Node e) \<and>
        ce_Subject ev = tev_Kind inp @ ''/'' @ show_int (VMID (tev_UPID inp)) \<and>
        ed_Cluster d = en_Cluster e \<and> ed_Node d = en_Node e \<and> ed_SourceNode d = en_Node e \<and>
        ed_UPID d = raw_of inp \<and> ed_User d = up_User (tev_UPID inp) \<and> ed_VMID d = VMID (tev_UPID inp) \<and>
        ed_Kind d = tev_Kind inp \<and> ed_Action d = tev_Action inp \<and> ed_Phase d = tev_Phase inp \<and>
        ed_Name d = (case filter is_name conf of [] \<Rightarrow> [] | qs \<Rightarrow> snd (last qs)) \<and>
        ed_Tags d = splitTags (setting conf ''tags'') \<and>
        ed_Description d = unescapeDescription (setting conf ''description'') \<and>
        ed_HookScript d = setting conf ''hookscript'' \<and>
        ed_DurationMS d = (if final \<and> taskStart \<noteq> 0 then Some (milliseconds (now' - taskStart)) else None) \<and>
        ed_ExitStatus d = (if final then tev_Status inp else []) \<and>
        ed_TargetNode d = (if migration
          then first_found [migrateTarget e (env now) (tev_UPID inp), migrateTargetFromTaskLog e (env now) (tev_UPID inp),
                 migrateTargetFromTaskLog e (env now') (tev_UPID inp), recallMigrateTarget (raw_of inp) e]
          else []) \<and>
        (if migration \<and> tev_Phase inp = PhaseStarted
         then recallMigrateTarget (raw_of inp) e' = ed_TargetNode d
         else now' = now \<and>
           recallMigrateTarget (raw_of inp) e' = (if migration \<and> final then [] else recallMigrateTarget (raw_of inp) e))"
proof -
  obtain resolved now1 where r: "resolveMigrateTarget e env delay now inp = (resolved, now1)"
    by (cases "resolveMigrateTarget e env delay now inp")
  obtain target e1 where m: "migrate_part inp resolved e = (target, e1)"
    by (cases "migrate_part inp resolved e")
  have keep: "en_Cluster e1 = en_Cluster e" "en_Node e1 = en_Node e"
    using migrate_part_keeps [of inp resolved e] m by simp_all
  let ?look = "\<lambda>t. migrateTargetFromTaskLog e (env t) (tev_UPID inp)"
  have f: "resolved = first_found [migrateTarget e (env now) (tev_UPID inp), ?look now, ?look now1]"
    "tev_Phase inp \<noteq> PhaseStarted \<Longrightarrow> now1 = now"
    using resolve_first [OF r] by blast+
  have t: "target = (if resolved = [] then recallMigrateTarget (raw_of inp) e else resolved)"
    using targets.event_target [of "tev_Phase inp" "raw_of inp" resolved e] m by (simp add: migrate_part_event)
  have target: "target = first_found [migrateTarget e (env now) (tev_UPID inp), ?look now, ?look now1,
      recallMigrateTarget (raw_of inp) e]"
    unfolding t f(1) by (simp add: first_found_def)
  have cache: "recallMigrateTarget (raw_of inp) e1 =
      (if terminal (tev_Phase inp) then [] else if tev_Phase inp = PhaseStarted then target
       else recallMigrateTarget (raw_of inp) e)"
    using targets.event_started [OF assms(4), of resolved e] targets.event_terminal [of "tev_Phase inp" "raw_of inp" resolved e]
      m t by (auto simp: migrate_part_event targets.event_def Let_def)
  let ?u = "tev_UPID inp" and ?conf = "settings (env now) path"
  define base where "base = zero_data\<lparr>ed_Cluster := en_Cluster e, ed_Node := en_Node e, ed_Kind := tev_Kind inp,
      ed_VMID := VMID ?u, ed_Action := tev_Action inp, ed_Phase := tev_Phase inp, ed_UPID := up_Raw ?u,
      ed_User := up_User ?u, ed_SourceNode := en_Node e,
      ed_Name := (case filter is_name ?conf of [] \<Rightarrow> [] | qs \<Rightarrow> snd (last qs)),
      ed_Tags := splitTags (setting ?conf ''tags''),
      ed_Description := unescapeDescription (setting ?conf ''description''), ed_HookScript := setting ?conf ''hookscript''\<rparr>"
  define ending :: "event_data \<Rightarrow> event_data" where "ending = (\<lambda>data. if terminal (tev_Phase inp)
      then (if taskStart \<noteq> 0 then data\<lparr>ed_DurationMS := Some (milliseconds (now' - taskStart))\<rparr> else data)
        \<lparr>ed_ExitStatus := tev_Status inp\<rparr> else data)"
  define mk where "mk = New uid now' (TypeFor (tev_Kind inp) (tev_Action inp) (tev_Phase inp))
      (SourceFor (en_Cluster e) (en_Node e)) (SubjectFor (tev_Kind inp) (VMID ?u))"
  have "with_config (ReadVMConfig (env now) (en_Reader e) (tev_Kind inp) (VMID ?u))
      (zero_data\<lparr>ed_Cluster := en_Cluster e, ed_Node := en_Node e, ed_Kind := tev_Kind inp, ed_VMID := VMID ?u,
        ed_Action := tev_Action inp, ed_Phase := tev_Phase inp, ed_UPID := up_Raw ?u, ed_User := up_User ?u,
        ed_SourceNode := en_Node e\<rparr>) = base"
    by (subst with_config_settings [OF assms(1,2)]) (simp_all add: base_def zero_data_def)
  then have life: "ev = mk (ending (if tev_Action inp = ActionMigrate
        then (if target \<noteq> [] then base\<lparr>ed_TargetNode := target\<rparr> else base) else base)) \<and>
      e' = (if tev_Action inp = ActionMigrate then e1 else e) \<and>
      now' = (if tev_Action inp = ActionMigrate then now1 else now)"
    using assms(3) keep by (auto simp: Lifecycle_def Let_def r m ending_def mk_def split: if_splits)
  have fields: "ce_ID (mk data) = uid \<and> ce_Time (mk data) = now' \<and>
      ce_Type (mk data) = ''dev.proxmox.eventbus.'' @ tev_Kind inp @ ''.'' @ tev_Action inp @ ''.'' @ tev_Phase inp \<and>
      ce_Source (mk data) = ''/pve/'' @ safe (en_Cluster e) @ ''/'' @ safe (en_Node e) \<and>
      ce_Subject (mk data) = tev_Kind inp @ ''/'' @ show_int (VMID ?u) \<and>
      ce_Data (mk data) = data\<lparr>ed_SchemaVersion := SchemaVersion\<rparr>" for data
    by (simp add: mk_def New_def TypeFor_def TypeNamespace_def SourceFor_def SubjectFor_def)
  show ?thesis
  proof (cases "tev_Action inp = ActionMigrate")
    case True
    then have now1: "now' = now1" and e': "e' = e1" using life by simp_all
    show ?thesis
      using life True f(2) unfolding now1 [symmetric]
      by (cases "terminal (tev_Phase inp)")
        (simp_all add: fields ending_def base_def zero_data_def raw_of_def [symmetric] e' cache
          target [unfolded now1 [symmetric], symmetric] Let_def terminal_def phase_defs)
  next
    case False
    then have "now' = now" "e' = e" using life by simp_all
    then show ?thesis
      using life False
      by (cases "terminal (tev_Phase inp)")
        (simp_all add: fields ending_def base_def zero_data_def raw_of_def Let_def)
  qed
qed


text \<open>The end of a start task, three milliseconds after its start.\<close>

lemma Lifecycle_data_witness:
  "let conf = ''description: a'' @ [CHR 0x5C] @ ''nb'' @ [CHR 0x0A] @ ''hookscript: local:x'';
       d = ce_Data (fst (Lifecycle (\<lambda>_. fs_of [(''/etc/pve/qemu-server/100.conf'', RegFile (Inr conf))]) (\<lambda>_. 0) ''id'' 5000000
             ((sample_event PhaseFinished ''OK'')\<lparr>tev_Action := ActionStart\<rparr>) 2000000 sample_enricher))
   in ed_Description d = ''a'' @ [CHR 0x0A] @ ''b'' \<and> ed_HookScript d = ''local:x'' \<and> ed_DurationMS d = Some 3"
proof -
  let ?conf = "''description: a'' @ [CHR 0x5C] @ ''nb'' @ [CHR 0x0A] @ ''hookscript: local:x''"
  let ?env = "\<lambda>_ :: time. fs_of [(''/etc/pve/qemu-server/100.conf'', RegFile (Inr ?conf))]"
  let ?inp = "(sample_event PhaseFinished ''OK'')\<lparr>tev_Action := ActionStart\<rparr>"
  obtain ev e' now' where r: "Lifecycle ?env (\<lambda>_. 0) ''id'' 5000000 ?inp 2000000 sample_enricher = (ev, e', now')"
    by (rule prod_cases3)
  have l: "scan_lines max_scan_token ?conf = ([''description: a'' @ [CHR 0x5C] @ ''nb'', ''hookscript: local:x''], False)"
    by (simp add: max_scan_token_def str_simps)
  have o: "fopen (?env 5000000) ''/etc/pve/qemu-server/100.conf'' = Inr (?conf, False)"
    by (simp add: fopen_def fs_of_def)
  have i: "intact (?env 5000000) ''/etc/pve/qemu-server/100.conf''"
    unfolding intact_def o by (simp only: sum.case prod.case l snd_conv) simp
  have s: "settings (?env 5000000) ''/etc/pve/qemu-server/100.conf'' =
      [(''description'', ''a'' @ [CHR 0x5C] @ ''nb''), (''hookscript'', ''local:x'')]"
    unfolding settings_def o by (simp only: sum.case prod.case l fst_conv) (simp add: assignments_def str_simps)
  have p: "conf_path (en_Reader sample_enricher) (tev_Kind ?inp) (VMID (tev_UPID ?inp)) = Some ''/etc/pve/qemu-server/100.conf''"
    using sample_conf_path by (simp add: sample_enricher_def sample_event_def sample_upid_def VMID_def str_simps)
  have n: "raw_of ?inp \<noteq> []" by (simp add: raw_of_def sample_event_def sample_upid_def sample_no_space)
  show ?thesis
    using Lifecycle_data [OF p i r n, unfolded s] r
    by (simp add: sample_event_def setting_def terminal_def milliseconds_def action_defs Let_def)
qed

end
