(* ===== verification/Json.thy ===== *)
theory Json
  imports Go_Strconv
begin

text \<open>
  JSON values as \<open>encoding/json\<close> decodes them, and the reading of the fields of an object into
  a Go struct: names that match but for case, a later occurrence after an earlier one, a null
  that leaves the field as it is, and a value of the wrong type, which is an error but does not
  keep the other fields from being read. A number keeps its text.
\<close>

datatype json =
    JNull
  | JBool bool
  | JNum string
  | JStr string
  | JArr "json list"
  | JObj "(string \<times> json) list"

text \<open>A decoded object as a Go map: the last value of a key counts.\<close>

definition json_get :: "(string \<times> json) list \<Rightarrow> string \<Rightarrow> json option" where
  "json_get kvs k = map_of (rev kvs) k"

text \<open>
  \<open>foldName\<close>: two names match if they are equal up to case, where the Kelvin sign counts as
  a \<open>k\<close> and the long s as an \<open>s\<close>.
\<close>

fun fold_name :: "string \<Rightarrow> string" where
  "fold_name [] = []"
| "fold_name (c # s) =
     (if char_range CHR ''A'' CHR ''Z'' c then lower_char c # fold_name s
      else if c = CHR 0xE2 \<and> has_prefix s [CHR 0x84, CHR 0xAA] then CHR ''k'' # fold_name (drop 2 s)
      else if c = CHR 0xC5 \<and> has_prefix s [CHR 0xBF] then CHR ''s'' # fold_name (drop 1 s)
      else c # fold_name s)"

text \<open>The values given for a field of a struct, in order.\<close>

definition field_values :: "(string \<times> json) list \<Rightarrow> string \<Rightarrow> json list" where
  "field_values kvs name = map snd (filter (\<lambda>(k, _). fold_name k = name) kvs)"

text \<open>Storing one value: the new content of the field and whether the types agree.\<close>

definition store_string :: "json \<Rightarrow> string \<Rightarrow> string \<times> bool" where
  "store_string j old = (case j of JNull \<Rightarrow> (old, True) | JStr s \<Rightarrow> (s, True) | _ \<Rightarrow> (old, False))"

definition store_int :: "json \<Rightarrow> int \<Rightarrow> int \<times> bool" where
  "store_int j old =
     (case j of
        JNull \<Rightarrow> (old, True)
      | JNum s \<Rightarrow> (case parse_int 10 64 s of Inl _ \<Rightarrow> (old, False) | Inr i \<Rightarrow> (i, True))
      | _ \<Rightarrow> (old, False))"

text \<open>Into a pointer: null sets it to nil, and a value that does not fit leaves a zero behind.\<close>

definition store_int_ptr :: "json \<Rightarrow> int option \<Rightarrow> int option \<times> bool" where
  "store_int_ptr j old =
     (case j of
        JNull \<Rightarrow> (None, True)
      | _ \<Rightarrow> let (i, ok) = store_int j (case old of None \<Rightarrow> 0 | Some i \<Rightarrow> i) in (Some i, ok))"

text \<open>
  Into a slice of strings: the elements are stored one by one; an old slice lends its elements
  to those that a null or a wrong type leaves alone.
\<close>

fun store_elems :: "json list \<Rightarrow> string list \<Rightarrow> string list \<times> bool" where
  "store_elems [] old = ([], True)"
| "store_elems (j # js) old =
     (let (s, ok) = store_string j (case old of [] \<Rightarrow> [] | o1 # _ \<Rightarrow> o1);
          (ss, oks) = store_elems js (tl old)
      in (s # ss, ok \<and> oks))"

definition store_strings :: "json \<Rightarrow> string list \<Rightarrow> string list \<times> bool" where
  "store_strings j old =
     (case j of JNull \<Rightarrow> ([], True) | JArr js \<Rightarrow> store_elems js old | _ \<Rightarrow> (old, False))"

text \<open>All values of a field in order; the boolean is whether every one of them fitted.\<close>

definition read_field ::
    "(json \<Rightarrow> 'a \<Rightarrow> 'a \<times> bool) \<Rightarrow> 'a \<Rightarrow> (string \<times> json) list \<Rightarrow> string \<Rightarrow> 'a \<times> bool" where
  "read_field store zero kvs name =
     fold (\<lambda>j (x, ok). let (x', ok') = store j x in (x', ok \<and> ok')) (field_values kvs name) (zero, True)"

text \<open>A field that is given once, or not at all.\<close>

lemma read_field_none: "field_values kvs name = [] \<Longrightarrow> read_field store zero kvs name = (zero, True)"
  by (simp add: read_field_def)

lemma read_field_once: "field_values kvs name = [j] \<Longrightarrow> read_field store zero kvs name = store j zero"
  by (simp add: read_field_def split_beta)

lemma field_values_simps [simp]:
  "field_values [] name = []"
  "field_values ((k, j) # kvs) name = (if fold_name k = name then j # field_values kvs name else field_values kvs name)"
  "field_values (xs @ ys) name = field_values xs name @ field_values ys name"
  by (simp_all add: field_values_def)

end
