(* ===== verification/Qmp.thy ===== *)
theory Qmp
  imports Json
begin

text \<open>
  The query of QEMU's monitor (\<open>internal/snapshot/qmp.go\<close>): a handshake over lines of JSON.
  A connection is what the peer sends before the deadline, and which of the writes succeed;
  \<open>unmarshal\<close> decodes a line into an object (\<open>Some []\<close> for the line null, which leaves Go's map
  nil), and is an argument.
\<close>

record qmp_conn =
  qc_in :: string
  qc_write :: "nat \<Rightarrow> bool"

datatype qmp_error = QmpDial | QmpGreeting | QmpWrite | QmpAck | QmpStatus | QmpNoReturn

text \<open>\<open>readJSON\<close>: one line up to and with its newline, and what is left; an unfinished line is an
  error (end of file or deadline).\<close>

definition readJSON ::
    "(string \<Rightarrow> (string \<times> json) list option) \<Rightarrow> string \<Rightarrow> (string \<times> json) list option \<times> string" where
  "readJSON unmarshal inp =
     (let (line, rest, found) = cut inp CHR 0x0A
      in if found then (unmarshal (line @ [CHR 0x0A]), rest) else (None, []))"

text \<open>\<open>writeJSON\<close> of a command: the bytes that are written.\<close>

definition command :: "string \<Rightarrow> string" where
  "command name = ''{\"execute\":\"'' @ name @ ''\"}'' @ [CHR 0x0D, CHR 0x0A]"

text \<open>The text of the status, empty if it is missing or no string.\<close>

definition status_of :: "(string \<times> json) list \<Rightarrow> qmp_error + string" where
  "status_of resp =
     (case json_get resp ''return'' of
        Some (JObj ret) \<Rightarrow> Inr (case json_get ret ''status'' of Some (JStr s) \<Rightarrow> s | _ \<Rightarrow> [])
      | _ \<Rightarrow> Inl QmpNoReturn)"

text \<open>The result, and the commands that were written.\<close>

definition queryQMPStatus ::
    "(string \<Rightarrow> (string \<times> json) list option) \<Rightarrow> qmp_conn option \<Rightarrow> (qmp_error + string) \<times> string list" where
  "queryQMPStatus unmarshal dial =
     (case dial of
        None \<Rightarrow> (Inl QmpDial, [])
      | Some c \<Rightarrow>
          (case readJSON unmarshal (qc_in c) of
             (None, _) \<Rightarrow> (Inl QmpGreeting, [])
           | (Some _, r) \<Rightarrow>
               if \<not> qc_write c 0 then (Inl QmpWrite, [])
               else
                 (case readJSON unmarshal r of
                    (None, _) \<Rightarrow> (Inl QmpAck, [command ''qmp_capabilities''])
                  | (Some _, r) \<Rightarrow>
                      if \<not> qc_write c 1 then (Inl QmpWrite, [command ''qmp_capabilities''])
                      else
                        (case readJSON unmarshal r of
                           (None, _) \<Rightarrow> (Inl QmpStatus, [command ''qmp_capabilities'', command ''query-status''])
                         | (Some resp, _) \<Rightarrow>
                             (status_of resp, [command ''qmp_capabilities'', command ''query-status''])))))"

text \<open>A line that arrives whole.\<close>

lemma readJSON_line:
  "CHR 0x0A \<notin> set l \<Longrightarrow> readJSON unmarshal (l @ CHR 0x0A # rest) = (unmarshal (l @ [CHR 0x0A]), rest)"
  by (simp add: readJSON_def cut_found)

lemma readJSON_unfinished: "CHR 0x0A \<notin> set l \<Longrightarrow> readJSON unmarshal l = (None, [])"
  by (simp add: readJSON_def cut_not_found)

text \<open>A session of three lines: only the third one is looked at.\<close>

lemma query_three_lines:
  assumes "CHR 0x0A \<notin> set greet \<union> set ack \<union> set resp"
    and "unmarshal (greet @ [CHR 0x0A]) = Some g" and "unmarshal (ack @ [CHR 0x0A]) = Some a"
    and "unmarshal (resp @ [CHR 0x0A]) = Some r"
    and "qc_in c = greet @ CHR 0x0A # ack @ CHR 0x0A # resp @ CHR 0x0A # rest"
    and "qc_write c 0" and "qc_write c 1"
  shows "queryQMPStatus unmarshal (Some c) =
    (status_of r, [command ''qmp_capabilities'', command ''query-status''])"
  using assms by (simp add: queryQMPStatus_def readJSON_line)

section \<open>Properties\<close>

text \<open>C22: A monitor that greets, acknowledges and answers is asked exactly two commands in the order
  of the protocol, and its status is returned, whatever else the objects hold and whatever
  comes after; but the lines are taken as they come: an event that QEMU emits between the
  acknowledgement and the answer is taken for the answer, and the query fails although the
  answer is there.\<close>

theorem queryQMPStatus_session:
  assumes "CHR 0x0A \<notin> set greet \<union> set ack \<union> set resp \<union> set event"
    and "unmarshal (greet @ [CHR 0x0A]) = Some g" and "unmarshal (ack @ [CHR 0x0A]) = Some a"
    and "unmarshal (resp @ [CHR 0x0A]) = Some r" and "unmarshal (event @ [CHR 0x0A]) = Some e"
    and "json_get r ''return'' = Some (JObj ret)" and "json_get ret ''status'' = Some (JStr s)"
    and "json_get e ''return'' = None"
  shows "queryQMPStatus unmarshal
      (Some \<lparr>qc_in = greet @ CHR 0x0A # ack @ CHR 0x0A # resp @ CHR 0x0A # rest, qc_write = (\<lambda>_. True)\<rparr>) =
      (Inr s, [command ''qmp_capabilities'', command ''query-status'']) \<and>
    fst (queryQMPStatus unmarshal
      (Some \<lparr>qc_in = greet @ CHR 0x0A # ack @ CHR 0x0A # event @ CHR 0x0A # resp @ CHR 0x0A # rest,
         qc_write = (\<lambda>_. True)\<rparr>)) = Inl QmpNoReturn"
  using query_three_lines [of greet ack resp unmarshal g a r _ rest]
    query_three_lines [of greet ack event unmarshal g a e _ "resp @ CHR 0x0A # rest"] assms
  by (simp add: status_of_def)

definition sample_unmarshal :: "string \<Rightarrow> (string \<times> json) list option" where
  "sample_unmarshal l =
     (if l = ''r'' @ [CHR 0x0A] then Some [(''return'', JObj [(''status'', JStr ''paused'')])] else Some [])"

lemma queryQMPStatus_session_witness:
  "fst (queryQMPStatus sample_unmarshal
     (Some \<lparr>qc_in = ''g'' @ CHR 0x0A # ''a'' @ CHR 0x0A # ''r'' @ CHR 0x0A # [], qc_write = (\<lambda>_. True)\<rparr>)) = Inr ''paused''"
  using queryQMPStatus_session [of "''g''" "''a''" "''r''" "''e''" sample_unmarshal "[]" "[]"
      "[(''return'', JObj [(''status'', JStr ''paused'')])]" "[]" "[(''status'', JStr ''paused'')]" "''paused''" "[]"]
  by (simp add: sample_unmarshal_def json_get_def)

end
