(* ===== verification/Channel.thy ===== *)
theory Channel
  imports "HOL-Library.Sublist"
begin

text \<open>
  Bounded channels, as the producers of events see them: the interface of an offer that drops
  what does not fit (a \<open>select\<close> with a \<open>default\<close>), and the buffered channel that provides it; and
  what a receiver gets of it while several producers offer.
\<close>

record 'e channel =
  ch_cap :: nat
  ch_buf :: "'e list"

definition offer :: "'e \<Rightarrow> 'e channel \<Rightarrow> 'e channel" where
  "offer ev c = (if length (ch_buf c) < ch_cap c then c\<lparr>ch_buf := ch_buf c @ [ev]\<rparr> else c)"

definition room :: "'e channel \<Rightarrow> nat" where
  "room c = ch_cap c - length (ch_buf c)"

locale lossy_sink =
  fixes offer :: "'e \<Rightarrow> 'c \<Rightarrow> 'c"
    and room :: "'c \<Rightarrow> nat"
    and content :: "'c \<Rightarrow> 'e list"
  assumes offer_room: "0 < room c \<Longrightarrow> content (offer e c) = content c @ [e] \<and> room (offer e c) = room c - 1"
    and offer_full: "room c = 0 \<Longrightarrow> offer e c = c"
begin

text \<open>A burst: what fits arrives in order, the rest is dropped, nothing else changes.\<close>

lemma burst:
  "content (fold offer es c) = content c @ take (room c) es \<and> room (fold offer es c) = room c - length es"
proof (induction es arbitrary: c)
  case (Cons e es)
  then show ?case
    using offer_room [of c e] offer_full [of c e] by (cases "room c") auto
qed simp

lemma burst_fits: "length es \<le> room c \<Longrightarrow> content (fold offer es c) = content c @ es"
  by (simp add: burst)

end

interpretation chan_sink: lossy_sink offer room ch_buf
  by unfold_locales (auto simp: offer_def room_def)

section \<open>Producers and a receiver\<close>

text \<open>
  The operations on the channel in the order in which they take effect: offers of any number
  of producers, and receives, which find the channel empty or take its head. The result is
  what was received, and the channel. (A blocking send is an offer at a moment with room.)
\<close>

datatype 'e chan_op = Offer 'e | Recv

fun chan_run :: "'e chan_op list \<Rightarrow> 'e channel \<Rightarrow> 'e list \<times> 'e channel" where
  "chan_run [] c = ([], c)"
| "chan_run (Offer e # ops) c = chan_run ops (offer e c)"
| "chan_run (Recv # ops) c =
     (case ch_buf c of
        [] \<Rightarrow> chan_run ops c
      | e # es \<Rightarrow> let (out, c') = chan_run ops (c\<lparr>ch_buf := es\<rparr>) in (e # out, c'))"

definition offers :: "'e chan_op list \<Rightarrow> 'e list" where
  "offers ops = concat (map (\<lambda>a. case a of Offer e \<Rightarrow> [e] | Recv \<Rightarrow> []) ops)"

lemma offers_simps [simp]:
  "offers [] = []" "offers (Offer e # ops) = e # offers ops" "offers (Recv # ops) = offers ops"
  by (simp_all add: offers_def)

text \<open>Whatever is dropped, what arrives is in the order of the offers, and nothing is duplicated.\<close>

lemma chan_run_subseq:
  "subseq (fst (chan_run ops c) @ ch_buf (snd (chan_run ops c))) (ch_buf c @ offers ops)"
proof (induction ops c rule: chan_run.induct)
  case (2 e ops c)
  have "subseq (ch_buf (offer e c) @ offers ops) (ch_buf c @ e # offers ops)"
    by (auto simp: offer_def subseq_append')
  then show ?case using 2 by (auto intro: subseq_order.trans)
next
  case (3 ops c)
  then show ?case by (auto simp: split_beta split: list.split)
qed simp

lemma chan_run_received: "subseq (fst (chan_run ops c)) (ch_buf c @ offers ops)"
  using chan_run_subseq [of ops c] by (rule subseq_order.trans [rotated]) (rule subseq_rev_drop_many, simp)

text \<open>A subsequence that reaches the last element.\<close>

lemma subseq_snoc:
  assumes "subseq (xs @ [x]) (ys @ [y])" and "x \<notin> set ys"
  shows "x = y \<and> subseq xs ys"
proof -
  have "subseq [x] (ys @ [y])" using assms(1) by (rule subseq_order.trans [rotated]) (rule subseq_drop_many, simp)
  then have "x = y" using assms(2) by (simp add: subseq_singleton_left)
  then show ?thesis using assms(1) by simp
qed

end
