(* ===== verification/Snapshot.thy ===== *)
theory Snapshot
  imports Pmxcfs Qmp Channel "HOL-Library.Word"
begin

text \<open>
  The snapshot emitter (\<open>internal/snapshot\<close>): the state of a VM from its pid file and of a
  container from its cgroup, one batch of snapshot events, and the schedule of the batches.
  The world at a moment (file system, answer of \<open>kill(pid, 0)\<close>, monitor sockets, JSON decoder,
  clock, next UUID) is an argument.
\<close>

section \<open>The world\<close>

datatype kill_result = KillOK | KillEPERM | KillESRCH

record world =
  w_fs :: fs
  w_kill :: "int \<Rightarrow> kill_result"
  w_qmp :: "string \<Rightarrow> qmp_conn option"
  w_unmarshal :: "string \<Rightarrow> (string \<times> json) list option"
  w_now :: time
  w_uid :: string

text \<open>The text of an error as \<open>%v\<close> prints it.\<close>

definition err_text :: "io_error \<Rightarrow> string" where
  "err_text e = (case e of NotExist \<Rightarrow> ''no such file or directory'' | IOErr s \<Rightarrow> s)"

section \<open>Probing\<close>

record prober =
  pr_RunDir :: string
  pr_CgroupV2 :: string
  pr_ProcRoot :: string
  pr_UseQMP :: bool

definition runDir :: "prober \<Rightarrow> string" where
  "runDir p = (if pr_RunDir p = [] then ''/run'' else pr_RunDir p)"

definition cgroupRoot :: "prober \<Rightarrow> string" where
  "cgroupRoot p = (if pr_CgroupV2 p = [] then ''/sys/fs/cgroup'' else pr_CgroupV2 p)"

datatype pid_error = StalePID | PidIO io_error

definition readPID :: "fs \<Rightarrow> string \<Rightarrow> pid_error + int" where
  "readPID fs path =
     (case fopen fs path of
        Inl e \<Rightarrow> Inl (PidIO e)
      | Inr (content, failed) \<Rightarrow>
          (case fst (scan_lines max_scan_token content) of
             [] \<Rightarrow> Inl StalePID
           | l # _ \<Rightarrow> (case sscanf_int (trim_space l) of None \<Rightarrow> Inl StalePID | Some pid \<Rightarrow> Inr pid)))"

definition processAlive :: "world \<Rightarrow> prober \<Rightarrow> int \<Rightarrow> bool" where
  "processAlive w p pid =
     (if pid \<le> 1 then False
      else if pr_ProcRoot p \<noteq> [] then
        (case stat (w_fs w) (pr_ProcRoot p @ ''/'' @ show_int pid) of Inl _ \<Rightarrow> False | Inr _ \<Rightarrow> True)
      else (case w_kill w pid of KillOK \<Rightarrow> True | KillEPERM \<Rightarrow> True | KillESRCH \<Rightarrow> False))"

definition mapQMPStatus :: "string \<Rightarrow> state" where
  "mapQMPStatus s =
     (if s = ''running'' then StateRunning
      else if s \<in> {''paused'', ''prelaunch''} then StatePaused
      else if s = ''suspended'' then StateSuspended
      else StateUnknown)"

definition pid_path :: "prober \<Rightarrow> int \<Rightarrow> string" where
  "pid_path p vmid = path_join [runDir p, ''qemu-server'', show_int vmid @ ''.pid'']"

definition QEMUState :: "world \<Rightarrow> prober \<Rightarrow> int \<Rightarrow> state \<times> string" where
  "QEMUState w p vmid =
     (let pidPath = pid_path p vmid
      in case stat (w_fs w) pidPath of
           Inl e \<Rightarrow> if e = NotExist then (StateStopped, [])
                    else (StateUnknown, ''stat '' @ pidPath @ '': '' @ err_text e)
         | Inr _ \<Rightarrow>
             (case readPID (w_fs w) pidPath of
                Inl StalePID \<Rightarrow> (StateStopped, [])
              | Inl (PidIO _) \<Rightarrow> (StateRunning, [])
              | Inr pid \<Rightarrow>
                  if \<not> processAlive w p pid then (StateStopped, [])
                  else if \<not> pr_UseQMP p then (StateRunning, [])
                  else
                    let sock = path_join [runDir p, ''qemu-server'', show_int vmid @ ''.qmp'']
                    in (case fst (queryQMPStatus (w_unmarshal w) (w_qmp w sock)) of
                          Inr s \<Rightarrow> (mapQMPStatus s, [])
                        | Inl _ \<Rightarrow> (StateRunning, []))))"

definition lxc_paths :: "prober \<Rightarrow> int \<Rightarrow> string list" where
  "lxc_paths p vmid =
     [path_join [cgroupRoot p, ''lxc'', show_int vmid, ''cgroup.procs''],
      path_join [cgroupRoot p, ''lxc.payload-'' @ show_int vmid, ''cgroup.procs''],
      path_join [cgroupRoot p, ''lxc.payload.'' @ show_int vmid, ''cgroup.procs'']]"

fun lxc_loop :: "fs \<Rightarrow> string list \<Rightarrow> state \<times> string" where
  "lxc_loop fs [] = (StateStopped, [])"
| "lxc_loop fs (path # rest) =
     (case read_file fs path of
        Inl e \<Rightarrow> if e = NotExist then lxc_loop fs rest
                 else (StateUnknown, ''read '' @ path @ '': '' @ err_text e)
      | Inr b \<Rightarrow> if trim_space b = [] then (StateStopped, []) else (StateRunning, []))"

definition LXCState :: "world \<Rightarrow> prober \<Rightarrow> int \<Rightarrow> state \<times> string" where
  "LXCState w p vmid = lxc_loop (w_fs w) (lxc_paths p vmid)"

section \<open>A batch\<close>

record emitter =
  em_Cluster :: string
  em_Node :: string
  em_Interval :: int
  em_JitterPC :: int
  em_Reader :: string
  em_Probe :: prober

text \<open>\<open>Time.UnixNano\<close>: nanoseconds since 1970.\<close>

definition unix_nano :: "time \<Rightarrow> int" where
  "unix_nano t = t - 62135596800 * 1000000000"

definition snapshotEvent :: "world \<Rightarrow> emitter \<Rightarrow> kind \<Rightarrow> int \<Rightarrow> state \<Rightarrow> string \<Rightarrow> string \<Rightarrow> cloud_event" where
  "snapshotEvent w e k vmid st detail snapshotID =
     (let data = zero_data\<lparr>ed_Cluster := em_Cluster e, ed_Node := em_Node e, ed_Kind := k,
                   ed_VMID := vmid, ed_Action := ActionState, ed_Phase := PhaseSnapshot,
                   ed_State := st, ed_StateDetail := detail, ed_SnapshotID := snapshotID,
                   ed_ObservedAtNS := unix_nano (w_now w)\<rparr>;
          data = (case ReadVMConfig (w_fs w) (em_Reader e) k vmid of
                    Inl _ \<Rightarrow> data
                  | Inr cfg \<Rightarrow> data\<lparr>ed_Name := vc_Name cfg, ed_Tags := vc_Tags cfg\<rparr>)
      in New (w_uid w) (w_now w) (TypeFor k ActionState PhaseSnapshot)
           (SourceFor (em_Cluster e) (em_Node e)) (SubjectFor k vmid) data)"

definition completeEvent :: "world \<Rightarrow> emitter \<Rightarrow> string \<Rightarrow> nat \<Rightarrow> cloud_event" where
  "completeEvent w e snapshotID count =
     New (w_uid w) (w_now w) TypeSnapshotComplete (SourceFor (em_Cluster e) (em_Node e))
       (''node/'' @ em_Node e)
       (zero_data\<lparr>ed_Cluster := em_Cluster e, ed_Node := em_Node e, ed_SnapshotID := snapshotID,
          ed_SnapshotCount := int count, ed_ObservedAtNS := unix_nano (w_now w)\<rparr>)"

definition qemu_event :: "world \<Rightarrow> emitter \<Rightarrow> string \<Rightarrow> int \<Rightarrow> cloud_event" where
  "qemu_event w e sid vmid =
     (let (st, detail) = QEMUState w (em_Probe e) vmid in snapshotEvent w e KindQEMU vmid st detail sid)"

definition lxc_event :: "world \<Rightarrow> emitter \<Rightarrow> string \<Rightarrow> int \<Rightarrow> cloud_event" where
  "lxc_event w e sid vmid =
     (let (st, detail) = LXCState w (em_Probe e) vmid in snapshotEvent w e KindLXC vmid st detail sid)"

text \<open>The loops: the \<open>n\<close>-th event of the batch meets the world \<open>ws n\<close>.\<close>

fun send_all ::
    "(world \<Rightarrow> int \<Rightarrow> cloud_event) \<Rightarrow> (nat \<Rightarrow> world) \<Rightarrow> int list \<Rightarrow> nat \<Rightarrow> cloud_event channel
       \<Rightarrow> nat \<times> cloud_event channel" where
  "send_all mk ws [] count out = (count, out)"
| "send_all mk ws (vmid # rest) count out =
     send_all mk ws rest (count + 1) (offer (mk (ws count) vmid) out)"

definition emitBatch ::
    "emitter \<Rightarrow> world \<Rightarrow> (nat \<Rightarrow> world) \<Rightarrow> cloud_event channel \<Rightarrow> cloud_event channel" where
  "emitBatch e w0 ws out =
     (let sid = w_uid w0
      in case VMList (w_fs w0) (em_Reader e) of
           Inl _ \<Rightarrow> out
         | Inr (qemu, lxc) \<Rightarrow>
             let (count, out) = send_all (\<lambda>w. qemu_event w e sid) ws qemu 0 out;
                 (count, out) = send_all (\<lambda>w. lxc_event w e sid) ws lxc count out
             in offer (completeEvent (ws count) e sid count) out)"

section \<open>The schedule\<close>

text \<open>\<open>int64\<close> multiplication, and division truncated towards zero.\<close>

definition mul64 :: "int \<Rightarrow> int \<Rightarrow> int" where
  "mul64 a b = sint (word_of_int (a * b) :: 64 word)"

definition jitterMax :: "emitter \<Rightarrow> int" where
  "jitterMax e =
     (if 0 < em_JitterPC e
      then (let m = mul64 (em_Interval e) (em_JitterPC e) in sgn m * (\<bar>m\<bar> div 100)) else 0)"

text \<open>
  The start times of the batches. \<open>tick_next\<close> is the receive from the ticker after a batch that
  started at \<open>s\<close> and ended at \<open>t\<close>: the ticker was made at \<open>t0\<close> and fires every \<open>iv\<close>; it
  holds at most one tick and drops the others, so a batch that overran a tick is followed by the
  next one at once, and otherwise the loop waits for the next tick. The batch number \<open>k\<close>
  takes \<open>dur k\<close>; the result is the first \<open>n\<close> start times.
\<close>

definition tick_next :: "int \<Rightarrow> time \<Rightarrow> time \<Rightarrow> time \<Rightarrow> time" where
  "tick_next iv t0 s t =
     (if (s - t0) div iv < (t - t0) div iv then t else t0 + ((s - t0) div iv + 1) * iv)"

fun tick_loop :: "int \<Rightarrow> time \<Rightarrow> (nat \<Rightarrow> int) \<Rightarrow> nat \<Rightarrow> time \<Rightarrow> nat \<Rightarrow> time list" where
  "tick_loop iv t0 dur k s 0 = []"
| "tick_loop iv t0 dur k s (Suc n) = s # tick_loop iv t0 dur (k + 1) (tick_next iv t0 s (s + dur k)) n"

text \<open>\<open>Run\<close>, started at \<open>start\<close>; \<open>rnd\<close> is the number drawn below \<open>jitterMax\<close>.\<close>

definition batch_times :: "emitter \<Rightarrow> time \<Rightarrow> int \<Rightarrow> (nat \<Rightarrow> int) \<Rightarrow> nat \<Rightarrow> time list" where
  "batch_times e start rnd dur n =
     (if em_Interval e \<le> 0 then take n [start]
      else
        let jitter = (if 0 < jitterMax e then rnd else 0)
        in tick_loop (em_Interval e) (start + jitter) dur 0 (start + jitter) n)"

section \<open>Batches as lists\<close>

text \<open>The events of a batch in order, as they would arrive on an unbounded channel.\<close>

definition batch_events :: "emitter \<Rightarrow> world \<Rightarrow> (nat \<Rightarrow> world) \<Rightarrow> cloud_event list" where
  "batch_events e w0 ws =
     (case VMList (w_fs w0) (em_Reader e) of
        Inl _ \<Rightarrow> []
      | Inr (qemu, lxc) \<Rightarrow>
          map (\<lambda>i. qemu_event (ws i) e (w_uid w0) (qemu ! i)) [0..<length qemu] @
          map (\<lambda>i. lxc_event (ws (length qemu + i)) e (w_uid w0) (lxc ! i)) [0..<length lxc] @
          [completeEvent (ws (length qemu + length lxc)) e (w_uid w0) (length qemu + length lxc)])"

lemma send_all_fold:
  "send_all mk ws vs n out =
     (n + length vs, fold offer (map (\<lambda>i. mk (ws (n + i)) (vs ! i)) [0..<length vs]) out)"
proof (induction vs arbitrary: n out)
  case (Cons v vs)
  have "map (\<lambda>i. mk (ws (n + i)) ((v # vs) ! i)) [0..<length (v # vs)] =
      mk (ws n) v # map (\<lambda>i. mk (ws (Suc n + i)) (vs ! i)) [0..<length vs]"
    by (simp add: upt_conv_Cons map_Suc_upt [symmetric] comp_def del: upt_Suc)
  then show ?case using Cons [of "n + 1"] by (simp del: upt_Suc)
qed simp

lemma emitBatch_fold: "emitBatch e w0 ws out = fold offer (batch_events e w0 ws) out"
  by (simp add: emitBatch_def batch_events_def Let_def send_all_fold split: sum.split)

lemma completeEvent_data:
  "ed_SnapshotID (ce_Data (completeEvent w e sid n)) = sid" "ed_SnapshotCount (ce_Data (completeEvent w e sid n)) = int n"
  "ce_Type (completeEvent w e sid n) = TypeSnapshotComplete"
  by (simp_all add: completeEvent_def New_def)

lemma snapshotEvent_data:
  "ed_SnapshotID (ce_Data (snapshotEvent w e k v st dt sid)) = sid"
  "ed_State (ce_Data (snapshotEvent w e k v st dt sid)) = st"
  "ed_VMID (ce_Data (snapshotEvent w e k v st dt sid)) = v" "ed_Kind (ce_Data (snapshotEvent w e k v st dt sid)) = k"
  "ed_StateDetail (ce_Data (snapshotEvent w e k v st dt sid)) = dt"
  "ed_Action (ce_Data (snapshotEvent w e k v st dt sid)) = ActionState"
  "ed_Phase (ce_Data (snapshotEvent w e k v st dt sid)) = PhaseSnapshot"
  "ed_Cluster (ce_Data (snapshotEvent w e k v st dt sid)) = em_Cluster e"
  "ed_Node (ce_Data (snapshotEvent w e k v st dt sid)) = em_Node e"
  "ce_Type (snapshotEvent w e k v st dt sid) = TypeFor k ActionState PhaseSnapshot"
  by (simp_all add: snapshotEvent_def New_def Let_def split: sum.split)

section \<open>States\<close>

lemma state_distinct:
  "StateStopped \<noteq> StateRunning" "StateStopped \<noteq> StateUnknown" "StateRunning \<noteq> StateUnknown"
  "StateRunning \<noteq> StateStopped" "StateUnknown \<noteq> StateStopped" "StateUnknown \<noteq> StateRunning"
  "StatePaused \<noteq> StateStopped" "StateSuspended \<noteq> StateStopped"
  by (simp_all add: state_defs)

lemma mapQMPStatus_not_stopped: "mapQMPStatus s \<noteq> StateStopped"
  by (simp add: mapQMPStatus_def state_distinct)

lemma lxc_loop_missing:
  "\<forall>q \<in> set ps. read_file fs q = Inl NotExist \<Longrightarrow> lxc_loop fs (ps @ qs) = lxc_loop fs qs"
  by (induction ps) auto

lemma lxc_loop_detail: "snd (lxc_loop fs ps) \<noteq> [] \<Longrightarrow> fst (lxc_loop fs ps) = StateUnknown"
  by (induction ps) (auto split: sum.splits if_splits)

lemma QEMUState_detail: "snd (QEMUState w p v) \<noteq> [] \<Longrightarrow> fst (QEMUState w p v) = StateUnknown"
  by (auto simp: QEMUState_def Let_def split: sum.splits if_splits pid_error.splits option.splits)

lemma mul64_exact: "- (2 ^ 63) \<le> a * b \<Longrightarrow> a * b < 2 ^ 63 \<Longrightarrow> mul64 a b = a * b"
  unfolding mul64_def sint_sbintrunc' by (rule signed_take_bit_int_eq_self) simp_all

lemma tick_next_bounds:
  assumes "0 < iv" and "s \<le> t"
  shows "t \<le> tick_next iv t0 s t \<and> tick_next iv t0 s t \<le> max t (s + iv)"
proof (cases "(s - t0) div iv < (t - t0) div iv")
  case False
  then have e: "(t - t0) div iv = (s - t0) div iv"
    using zdiv_mono1 [of "s - t0" "t - t0" iv] assms by simp
  have d: "iv * ((t - t0) div iv) + (t - t0) mod iv = t - t0" "iv * ((s - t0) div iv) + (s - t0) mod iv = s - t0"
    by simp_all
  have m: "(t - t0) mod iv < iv" "0 \<le> (s - t0) mod iv" using assms(1) by simp_all
  have n: "tick_next iv t0 s t = t0 + iv * ((s - t0) div iv) + iv"
    using False by (simp add: tick_next_def algebra_simps)
  show ?thesis using d m unfolding n e by linarith
qed (simp add: tick_next_def)

lemma tick_next_on_time:
  assumes "0 < iv" and "0 \<le> d" and "d < iv"
  shows "tick_next iv t0 (t0 + int k * iv) (t0 + int k * iv + d) = t0 + int (Suc k) * iv"
proof -
  have "(int k * iv + d) div iv = int k" using assms by simp
  then show ?thesis using assms(1) by (simp add: tick_next_def algebra_simps)
qed

lemma tick_loop_Suc:
  "Suc i < n \<Longrightarrow> tick_loop iv t0 dur k s n ! Suc i =
     tick_next iv t0 (tick_loop iv t0 dur k s n ! i) (tick_loop iv t0 dur k s n ! i + dur (k + i))"
proof (induction n arbitrary: k s i)
  case (Suc n)
  then show ?case
  proof (cases i)
    case 0
    then obtain m where "n = Suc m" using Suc.prems by (cases n) auto
    then show ?thesis using 0 by simp
  next
    case (Suc j)
    then show ?thesis using Suc.IH [of j "k + 1"] Suc.prems by simp
  qed
qed simp

lemma tick_loop_on_time:
  assumes "0 < iv" and "\<And>j. 0 \<le> dur j \<and> dur j < iv"
  shows "i < n \<Longrightarrow> tick_loop iv t0 dur 0 t0 n ! i = t0 + int i * iv"
proof (induction i)
  case 0
  then show ?case by (cases n) simp_all
next
  case (Suc i)
  then show ?case
    using tick_loop_Suc [of i n iv t0 dur 0 t0] tick_next_on_time [of iv "dur i" t0 i] assms by simp
qed

text \<open>Pid files: a first line that is a number, and a text without digits.\<close>

lemma readPID_number:
  assumes "int64 pid" and "eol = [] \<or> hd eol = CHR 0x0A" and "fopen fs path = Inr (show_int pid @ eol, failed)"
  shows "readPID fs path = Inr pid"
proof -
  let ?l = "show_int pid"
  have "CHR 0x0A \<notin> set ?l" "CHR 0x0D \<notin> set ?l" by (simp_all add: show_int_no)
  then have l: "short_line max_scan_token ?l" "drop_cr ?l = ?l"
    using show_int_length [OF assms(1)] by (simp_all add: short_line_def drop_cr_id max_scan_token_def)
  have "hd (fst (scan_lines max_scan_token (?l @ eol))) = ?l \<and> fst (scan_lines max_scan_token (?l @ eol)) \<noteq> []"
  proof (cases eol)
    case Nil
    then show ?thesis using scan_lines_last [OF l(1)] l(2) by simp
  next
    case (Cons c t)
    then have "?l @ eol = unlines [?l] @ t" using assms(2) by simp
    then show ?thesis using scan_lines_append [of max_scan_token "[?l]" t] l by simp
  qed
  then show ?thesis
    using assms(3) trim_space_plain_word [OF show_int_plain] sscanf_show_int [OF assms(1)]
    by (auto simp: readPID_def split: list.split)
qed

lemma readPID_garbage:
  assumes "list_all (\<lambda>c. \<not> is_digit c) content" and "fopen fs path = Inr (content, failed)"
  shows "readPID fs path = Inl StalePID"
proof -
  have "sscanf_int (trim_space l) = None" if "l \<in> set (fst (scan_lines max_scan_token content))" for l
  proof -
    have "set (trim_space l) \<subseteq> set content"
      using scan_lines_chars [OF that] set_trim_space [of l] by blast
    then show ?thesis using assms(1) by (intro sscanf_no_digit) (auto simp: list_all_iff)
  qed
  then show ?thesis using assms(2) by (auto simp: readPID_def split: list.split)
qed

text \<open>A world with one running VM and one stopped container.\<close>

definition sample_world :: world where
  "sample_world =
     \<lparr>w_fs = fs_of
        [(''/etc/pve/qemu-server'', Directory (Inr [(''100.conf'', False)])),
         (''/etc/pve/lxc'', Directory (Inr [(''101.conf'', False)])),
         (''/run/qemu-server/100.pid'', RegFile (Inr ''4711''))],
      w_kill = (\<lambda>_. KillEPERM), w_qmp = (\<lambda>_. None), w_unmarshal = (\<lambda>_. None), w_now = 0, w_uid = ''id''\<rparr>"

definition sample_emitter :: emitter where
  "sample_emitter =
     \<lparr>em_Cluster = ''lab'', em_Node = ''pve1'', em_Interval = 30000000000, em_JitterPC = 10,
      em_Reader = ''/etc/pve'',
      em_Probe = \<lparr>pr_RunDir = [], pr_CgroupV2 = [], pr_ProcRoot = [], pr_UseQMP = False\<rparr>\<rparr>"

lemma sample_list: "VMList (w_fs sample_world) (em_Reader sample_emitter) = Inr ([100], [101])"
proof -
  have "path_join [''/etc/pve'', ''qemu-server''] = ''/etc/pve/qemu-server''"
    "path_join [''/etc/pve'', ''lxc''] = ''/etc/pve/lxc''"
    by (simp_all add: path_join_def path_clean_def str_simps)
  then show ?thesis
    by (simp add: VMList_def listConfigDir_def read_dir_def sample_world_def sample_emitter_def fs_of_def
        conf_id_def str_simps)
qed

section \<open>Properties\<close>

text \<open>Without a receiver a batch is sent in order, the VMs, the containers, then the completion; what the
  channel has no room for is dropped from the end, and nothing that was waiting in the channel
  is lost or reordered. A batch whose VM list cannot be read sends nothing.\<close>

theorem emitBatch_sends:
  "ch_buf (emitBatch e w0 ws out) = ch_buf out @ take (room out) (batch_events e w0 ws)"
  unfolding emitBatch_fold using chan_sink.burst by blast

text \<open>C14: What \<open>emitBatch\<close> offers, one after the other, are the state events of the listed VMs and
  containers in this order and then the completion. All carry the batch's id; the completion's
  count is the number of the state events before it, which tells a consumer how many events
  of the batch to expect.\<close>

theorem batch_count:
  assumes "VMList (w_fs w0) (em_Reader e) = Inr (qemu, lxc)"
  shows "\<exists>evs done. (\<forall>out. emitBatch e w0 ws out = fold offer (evs @ [done]) out) \<and>
    ce_Type done = TypeSnapshotComplete \<and> ed_SnapshotCount (ce_Data done) = int (length evs) \<and>
    map (\<lambda>ev. (ed_Kind (ce_Data ev), ed_VMID (ce_Data ev))) evs =
      map (Pair KindQEMU) qemu @ map (Pair KindLXC) lxc \<and>
    (\<forall>ev \<in> set (evs @ [done]). ed_SnapshotID (ce_Data ev) = w_uid w0)"
proof -
  let ?q = "map (\<lambda>i. qemu_event (ws i) e (w_uid w0) (qemu ! i)) [0..<length qemu]"
  let ?l = "map (\<lambda>i. lxc_event (ws (length qemu + i)) e (w_uid w0) (lxc ! i)) [0..<length lxc]"
  let ?d = "completeEvent (ws (length qemu + length lxc)) e (w_uid w0) (length qemu + length lxc)"
  have b: "batch_events e w0 ws = (?q @ ?l) @ [?d]" using assms by (simp add: batch_events_def)
  have "map (\<lambda>ev. (ed_Kind (ce_Data ev), ed_VMID (ce_Data ev))) (?q @ ?l) =
      map (Pair KindQEMU) qemu @ map (Pair KindLXC) lxc"
    by (simp add: comp_def qemu_event_def lxc_event_def split_beta snapshotEvent_data map_nth
        flip: map_map [of "Pair KindQEMU" "\<lambda>i. qemu ! i", unfolded comp_def]
              map_map [of "Pair KindLXC" "\<lambda>i. lxc ! i", unfolded comp_def])
  moreover have "\<forall>ev \<in> set ((?q @ ?l) @ [?d]). ed_SnapshotID (ce_Data ev) = w_uid w0"
    by (auto simp: qemu_event_def lxc_event_def split_beta snapshotEvent_data completeEvent_data)
  ultimately show ?thesis
    unfolding emitBatch_fold b by (intro exI [of _ "?q @ ?l"] exI [of _ ?d]) (simp add: completeEvent_data)
qed

lemma batch_count_witness:
  "\<exists>evs done. emitBatch sample_emitter sample_world (\<lambda>_. sample_world) \<lparr>ch_cap = 8, ch_buf = []\<rparr> =
       fold offer (evs @ [done]) \<lparr>ch_cap = 8, ch_buf = []\<rparr> \<and> ed_SnapshotCount (ce_Data done) = 2"
proof -
  obtain evs d where b: "\<forall>out. emitBatch sample_emitter sample_world (\<lambda>_. sample_world) out = fold offer (evs @ [d]) out"
    "ed_SnapshotCount (ce_Data d) = int (length evs)"
    "map (\<lambda>ev. (ed_Kind (ce_Data ev), ed_VMID (ce_Data ev))) evs = map (Pair KindQEMU) [100] @ map (Pair KindLXC) [101]"
    using batch_count [OF sample_list, of "\<lambda>_. sample_world"] by blast
  have "length evs = 2" using arg_cong [OF b(3), of length] by simp
  then show ?thesis using b(1,2) by (intro exI [of _ evs] exI [of _ d]) simp
qed

lemma batch_split:
  assumes "VMList (w_fs w0) (em_Reader e) = Inr (qemu, lxc)"
  shows "\<exists>evs done. batch_events e w0 ws = evs @ [done] \<and> ed_SnapshotCount (ce_Data done) = int (length evs) \<and>
    (\<forall>ev \<in> set evs. ce_Type ev \<noteq> TypeSnapshotComplete)"
proof -
  have t: "TypeFor KindQEMU ActionState PhaseSnapshot \<noteq> TypeSnapshotComplete"
    "TypeFor KindLXC ActionState PhaseSnapshot \<noteq> TypeSnapshotComplete"
    by (simp_all add: TypeFor_def TypeSnapshotComplete_def TypeNamespace_def kind_defs action_defs phase_defs)
  let ?q = "map (\<lambda>i. qemu_event (ws i) e (w_uid w0) (qemu ! i)) [0..<length qemu]"
  let ?l = "map (\<lambda>i. lxc_event (ws (length qemu + i)) e (w_uid w0) (lxc ! i)) [0..<length lxc]"
  let ?d = "completeEvent (ws (length qemu + length lxc)) e (w_uid w0) (length qemu + length lxc)"
  have "batch_events e w0 ws = (?q @ ?l) @ [?d]" using assms by (simp add: batch_events_def)
  moreover have "ed_SnapshotCount (ce_Data ?d) = int (length (?q @ ?l))" by (simp add: completeEvent_data)
  moreover have "\<forall>ev \<in> set (?q @ ?l). ce_Type ev \<noteq> TypeSnapshotComplete"
    using t by (auto simp: qemu_event_def lxc_event_def split_beta snapshotEvent_data)
  ultimately show ?thesis by blast
qed

text \<open>C15: A consumer can tell whether it has a whole batch. Other producers may offer events on the
  same channel, the publisher may receive at any moment, and any events may be dropped: what
  is received of a batch comes in the order of the batch; and once the completion of the batch
  has been received, the state events received before it are never more than the count it
  gives, and exactly that many if and only if none was lost.\<close>

theorem batch_loss_detectable:
  assumes "VMList (w_fs w0) (em_Reader e) = Inr (qemu, lxc)"
    and "filter (\<lambda>ev. ed_SnapshotID (ce_Data ev) = w_uid w0) (ch_buf c @ offers ops) = batch_events e w0 ws"
    and "filter (\<lambda>ev. ed_SnapshotID (ce_Data ev) = w_uid w0) (fst (chan_run ops c)) = got @ [done]"
    and "ce_Type done = TypeSnapshotComplete"
  shows "subseq (got @ [done]) (batch_events e w0 ws) \<and>
    int (length got) \<le> ed_SnapshotCount (ce_Data done) \<and>
    (int (length got) = ed_SnapshotCount (ce_Data done) \<longleftrightarrow> got @ [done] = batch_events e w0 ws)"
proof -
  obtain evs d where b: "batch_events e w0 ws = evs @ [d]" "ed_SnapshotCount (ce_Data d) = int (length evs)"
    "\<forall>ev \<in> set evs. ce_Type ev \<noteq> TypeSnapshotComplete"
    using batch_split [OF assms(1)] by blast
  have sub: "subseq (got @ [done]) (evs @ [d])"
    using subseq_filter [OF chan_run_received, of "\<lambda>ev. ed_SnapshotID (ce_Data ev) = w_uid w0" ops c]
    unfolding assms(2,3) b(1) .
  then have "done = d" "subseq got evs"
    using subseq_snoc [OF sub] b(3) assms(4) by blast+
  moreover from this have "length got \<le> length evs" by (auto dest: list_emb_length)
  moreover have "length got = length evs \<longleftrightarrow> got = evs"
    using \<open>subseq got evs\<close> by (auto dest: subseq_same_length)
  ultimately show ?thesis using sub b by auto
qed

text \<open>A channel with room for one event, drained once: the report on the container is lost.\<close>

lemma batch_loss_detectable_witness:
  "let es = batch_events sample_emitter sample_world (\<lambda>_. sample_world)
   in int (length [es ! 0]) \<noteq> ed_SnapshotCount (ce_Data (es ! 2))"
proof -
  let ?es = "batch_events sample_emitter sample_world (\<lambda>_. sample_world)"
  obtain a b d where es: "?es = [a, b, d]" and d: "ce_Type d = TypeSnapshotComplete"
    by (simp add: batch_events_def sample_list completeEvent_data)
  have ids: "ed_SnapshotID (ce_Data a) = w_uid sample_world \<and> ed_SnapshotID (ce_Data b) = w_uid sample_world \<and>
      ed_SnapshotID (ce_Data d) = w_uid sample_world"
    using es by (auto simp: batch_events_def sample_list qemu_event_def lxc_event_def split_beta snapshotEvent_data
        completeEvent_data)
  let ?c = "\<lparr>ch_cap = 1, ch_buf = []\<rparr>" and ?ops = "[Offer a, Offer b, Recv, Offer d, Recv]"
  have offered: "filter (\<lambda>ev. ed_SnapshotID (ce_Data ev) = w_uid sample_world) (ch_buf ?c @ offers ?ops) = ?es"
    unfolding es using ids by simp
  have received: "filter (\<lambda>ev. ed_SnapshotID (ce_Data ev) = w_uid sample_world) (fst (chan_run ?ops ?c)) = [a] @ [d]"
    using ids by (simp add: offer_def)
  have "int (length [a]) \<noteq> ed_SnapshotCount (ce_Data d)"
    using batch_loss_detectable [OF sample_list offered received d] unfolding es by simp
  then show ?thesis unfolding es by simp
qed

text \<open>C33: What the pid file of a QEMU VM says about its state (without the process directory that tests
  set). No file, or a file without any digit in it, even one cut off by a read error, means stopped; a
  file that cannot be looked up gives the unknown state; and one that exists but cannot be opened,
  as PVE's is for an unprivileged daemon, counts as running. If the first line is a 64-bit number,
  the VM is stopped exactly if the number is at most 1 or that process does not exist; otherwise it
  is what the monitor says if it is asked and answers, and running if not.\<close>

theorem QEMUState_pid_file:
  assumes "pr_ProcRoot p = []" and "int64 pid" and "eol = [] \<or> hd eol = CHR 0x0A"
    and "list_all (\<lambda>c. \<not> is_digit c) garbage"
  shows "let host = (\<lambda>n. w\<lparr>w_fs := (w_fs w)(pid_path p vmid := n)\<rparr>);
      session = fst (queryQMPStatus (w_unmarshal w) (w_qmp w (path_join [runDir p, ''qemu-server'', show_int vmid @ ''.qmp''])))
    in QEMUState (host (Inl NotExist)) p vmid = (StateStopped, []) \<and>
       fst (QEMUState (host (Inl (IOErr e))) p vmid) = StateUnknown \<and>
       QEMUState (host (Inr (RegFile (Inl err)))) p vmid = (StateRunning, []) \<and>
       QEMUState (host (Inr (RegFile (Inr garbage)))) p vmid = (StateStopped, []) \<and>
       QEMUState (host (Inr (Failing garbage))) p vmid = (StateStopped, []) \<and>
       QEMUState (host (Inr (RegFile (Inr (show_int pid @ eol))))) p vmid =
         (if pid \<le> 1 \<or> w_kill w pid = KillESRCH then StateStopped
          else if \<not> pr_UseQMP p then StateRunning
          else case session of
              Inl _ \<Rightarrow> StateRunning
            | Inr s \<Rightarrow> if s = ''running'' then StateRunning
                else if s = ''paused'' \<or> s = ''prelaunch'' then StatePaused
                else if s = ''suspended'' then StateSuspended else StateUnknown, [])"
proof -
  have alive: "processAlive (w\<lparr>w_fs := fs\<rparr>) p pid = (\<not> (pid \<le> 1 \<or> w_kill w pid = KillESRCH))" for fs
    using assms(1) by (cases "w_kill w pid") (simp_all add: processAlive_def)
  have pid: "readPID ((w_fs w)(pid_path p vmid := Inr (RegFile (Inr (show_int pid @ eol))))) (pid_path p vmid) = Inr pid"
    by (rule readPID_number [OF assms(2,3), of _ _ False]) (simp add: fopen_def)
  have no: "readPID ((w_fs w)(pid_path p vmid := n)) (pid_path p vmid) = Inl StalePID"
    if "n = Inr (RegFile (Inr garbage)) \<or> n = Inr (Failing garbage)" for n
    by (rule readPID_garbage [OF assms(4), where failed = "n = Inr (Failing garbage)"]) (use that in \<open>auto simp: fopen_def\<close>)
  show ?thesis
    by (simp add: QEMUState_def Let_def pid no alive stat_def)
      (simp add: readPID_def fopen_def mapQMPStatus_def split: sum.split)
qed

text \<open>The pid file of a live VM whose monitor is not asked.\<close>

lemma QEMUState_pid_file_witness:
  "QEMUState (sample_world\<lparr>w_fs := (w_fs sample_world)(pid_path (em_Probe sample_emitter) 7 :=
     Inr (RegFile (Inr (show_int 4711 @ [CHR 0x0A] @ ''x''))))\<rparr>) (em_Probe sample_emitter) 7 = (StateRunning, [])"
  using QEMUState_pid_file [of "em_Probe sample_emitter" 4711 "[CHR 0x0A] @ ''x''" "''none''" sample_world 7]
  by (simp add: sample_emitter_def sample_world_def int64_def is_digit_def less_eq_char_def Let_def)

text \<open>The diagnostic detail of a state is given only with the unknown state, for VMs and
  for containers, and a container whose first existing cgroup file can be read is running
  exactly if that file is not blank.\<close>

theorem state_details:
  assumes "lxc_paths p vmid = missing @ path # rest" and "read_file (w_fs w) path = Inr b"
    and "\<forall>q \<in> set missing. read_file (w_fs w) q = Inl NotExist"
  shows "LXCState w p vmid = (if trim_space b = [] then StateStopped else StateRunning, []) \<and>
    (snd (QEMUState w p vmid) \<noteq> [] \<longrightarrow> fst (QEMUState w p vmid) = StateUnknown)"
  using assms by (simp add: LXCState_def lxc_loop_missing QEMUState_detail)

lemma state_details_witness:
  "LXCState (sample_world\<lparr>w_fs := fs_of [(''/sys/fs/cgroup/lxc.payload-101/cgroup.procs'', RegFile (Inr ''5''))]\<rparr>)
     (em_Probe sample_emitter) 101 = (StateRunning, [])"
proof -
  let ?fs = "fs_of [(''/sys/fs/cgroup/lxc.payload-101/cgroup.procs'', RegFile (Inr ''5''))]"
  have s: "show_int 101 = ''101''"
    by (simp add: show_int_def show_nat_def show_base.simps digit_char_def char_of_def bit_iff_odd_drop_bit
        drop_bit_eq_div)
  have p: "lxc_paths (em_Probe sample_emitter) 101 =
      [''/sys/fs/cgroup/lxc/101/cgroup.procs''] @ ''/sys/fs/cgroup/lxc.payload-101/cgroup.procs'' #
      [''/sys/fs/cgroup/lxc.payload.101/cgroup.procs'']"
    by (simp add: lxc_paths_def cgroupRoot_def sample_emitter_def s path_join_def path_clean_def str_simps)
  have r: "read_file ?fs ''/sys/fs/cgroup/lxc.payload-101/cgroup.procs'' = Inr ''5''"
    "read_file ?fs ''/sys/fs/cgroup/lxc/101/cgroup.procs'' = Inl NotExist"
    by (simp_all add: fs_of_def str_simps)
  show ?thesis
    using state_details [OF p, of "sample_world\<lparr>w_fs := ?fs\<rparr>" "''5''"] r by (simp add: str_simps)
qed

text \<open>C16: The first batch is sent at most the configured percentage of the interval after the
  start. A batch never starts before the previous one has ended, and when it has, or when the
  interval since its start has passed, the next one starts without further delay. As long as
  every batch takes less than the interval, the batches are exactly one interval apart: the
  jitter moves only the first one.\<close>

theorem batch_times_spaced:
  assumes "0 < em_Interval e" and "0 \<le> em_JitterPC e" and "em_Interval e * em_JitterPC e < 2 ^ 63"
    and "0 \<le> rnd" and "rnd < max 1 (jitterMax e)" and "Suc k < n" and "\<And>j. 0 \<le> dur j"
  shows "start \<le> batch_times e start rnd dur n ! 0 \<and>
    (batch_times e start rnd dur n ! 0 - start) * 100 \<le> em_Interval e * em_JitterPC e \<and>
    batch_times e start rnd dur n ! k + dur k \<le> batch_times e start rnd dur n ! Suc k \<and>
    batch_times e start rnd dur n ! Suc k \<le> batch_times e start rnd dur n ! k + max (dur k) (em_Interval e) \<and>
    ((\<forall>j. dur j < em_Interval e) \<longrightarrow>
       batch_times e start rnd dur n ! Suc k = batch_times e start rnd dur n ! k + em_Interval e)"
proof -
  let ?iv = "em_Interval e"
  have m: "0 \<le> ?iv * em_JitterPC e" using assms(1,2) by simp
  have j: "jitterMax e * 100 \<le> ?iv * em_JitterPC e \<and> 0 \<le> jitterMax e"
  proof (cases "0 < em_JitterPC e")
    case True
    then have "0 < ?iv * em_JitterPC e" using assms(1) by simp
    then show ?thesis
      using True assms(3) m
      by (simp add: jitterMax_def mul64_exact Let_def pos_imp_zdiv_nonneg_iff)
  next
    case False
    then show ?thesis using m by (simp add: jitterMax_def)
  qed
  define t0 where "t0 = start + (if 0 < jitterMax e then rnd else 0)"
  have b: "batch_times e start rnd dur n = tick_loop ?iv t0 dur 0 t0 n"
    using assms(1) by (simp add: batch_times_def t0_def)
  have first: "start \<le> t0 \<and> (t0 - start) * 100 \<le> ?iv * em_JitterPC e"
    using assms(4,5) j m by (auto simp: t0_def)
  have "tick_loop ?iv t0 dur 0 t0 n ! 0 = t0" using assms(6) by (cases n) simp_all
  moreover have "s + dur k \<le> tick_next ?iv t0 s (s + dur k) \<and>
      tick_next ?iv t0 s (s + dur k) \<le> s + max (dur k) ?iv" for s
    using tick_next_bounds [of ?iv s "s + dur k" t0] assms(1) assms(7) [of k] by (auto simp: max_def)
  moreover have "tick_loop ?iv t0 dur 0 t0 n ! Suc k = tick_loop ?iv t0 dur 0 t0 n ! k + ?iv"
    if "\<forall>j. dur j < ?iv"
    using tick_loop_on_time [of ?iv dur _ n t0] that assms(1,6,7) by (simp add: algebra_simps)
  ultimately show ?thesis
    unfolding b using first tick_loop_Suc [OF assms(6), of ?iv t0 dur 0 t0] by simp
qed

lemma batch_times_spaced_witness:
  "batch_times sample_emitter 0 1000 (\<lambda>_. 5) 3 ! 2 - batch_times sample_emitter 0 1000 (\<lambda>_. 5) 3 ! 1 = 30000000000"
proof -
  have j: "jitterMax sample_emitter = 3000000000"
    by (simp add: jitterMax_def sample_emitter_def mul64_exact)
  show ?thesis
    using batch_times_spaced [of sample_emitter 1000 1 3 "\<lambda>_. 5" 0]
    by (simp add: j) (simp add: sample_emitter_def numeral_2_eq_2)
qed

end
