(* ===== verification/Config.thy ===== *)
theory Config
  imports Events Go_Files
begin

text \<open>
  The configuration (\<open>internal/config/config.go\<close>): its records, the defaults, the validation
  and \<open>Load\<close>. The YAML decoder is a parameter: from a configuration and the bytes of a file
  it gives the configuration with the file's values set, and whether decoding failed.
\<close>

section \<open>The records\<close>

record node_config =
  nc_ClusterName :: string
  nc_Name :: string
  nc_PmxcfsRoot :: string

record watch_config =
  wc_TasksDir :: string
  wc_Include :: "string list"
  wc_Actions :: "string list"

record snapshot_config =
  sc_Enabled :: bool
  sc_Interval :: int
  sc_JitterPC :: int
  sc_UseQMP :: bool

record listener_config =
  lc_Host :: string
  lc_Port :: int
  lc_Advertise :: string

record tls_config =
  tc_CAFile :: string
  tc_CertFile :: string
  tc_KeyFile :: string
  tc_VerifyClient :: bool

record discovery_config =
  dc_MembersFile :: string
  dc_StaticRoutes :: "string list"

record nats_config =
  na_ServerName :: string
  na_Client :: listener_config
  na_Cluster :: listener_config
  na_TLS :: tls_config
  na_Discovery :: discovery_config

record logging_config =
  lo_Level :: string
  lo_Format :: string

record config =
  cf_Node :: node_config
  cf_Watch :: watch_config
  cf_Snapshot :: snapshot_config
  cf_NATS :: nats_config
  cf_Logging :: logging_config

definition DefaultPath :: string where
  "DefaultPath = ''/etc/proxmox-eventbus/config.yaml''"

definition Defaults :: config where
  "Defaults =
     \<lparr>cf_Node = \<lparr>nc_ClusterName = [], nc_Name = [], nc_PmxcfsRoot = ''/etc/pve''\<rparr>,
      cf_Watch = \<lparr>wc_TasksDir = ''/var/log/pve/tasks'', wc_Include = [''qemu'', ''lxc''], wc_Actions = []\<rparr>,
      cf_Snapshot = \<lparr>sc_Enabled = True, sc_Interval = 30 * 1000000000, sc_JitterPC = 10, sc_UseQMP = False\<rparr>,
      cf_NATS =
        \<lparr>na_ServerName = [],
         na_Client = \<lparr>lc_Host = ''0.0.0.0'', lc_Port = 4222, lc_Advertise = []\<rparr>,
         na_Cluster = \<lparr>lc_Host = ''0.0.0.0'', lc_Port = 6222, lc_Advertise = []\<rparr>,
         na_TLS = \<lparr>tc_CAFile = ''/etc/pve/pve-root-ca.pem'', tc_CertFile = ''/etc/pve/local/pve-ssl.pem'',
           tc_KeyFile = ''/etc/pve/local/pve-ssl.key'', tc_VerifyClient = True\<rparr>,
         na_Discovery = \<lparr>dc_MembersFile = ''/etc/pve/.members'', dc_StaticRoutes = []\<rparr>\<rparr>,
      cf_Logging = \<lparr>lo_Level = ''info'', lo_Format = ''journald''\<rparr>\<rparr>"

section \<open>Validation\<close>

datatype config_error = BadInterval | BadJitter | BadFormat string | BadInclude string

fun bad_include :: "string list \<Rightarrow> config_error option" where
  "bad_include [] = None"
| "bad_include (k # ks) = (if k \<noteq> ''qemu'' \<and> k \<noteq> ''lxc'' then Some (BadInclude k) else bad_include ks)"

definition Validate :: "config \<Rightarrow> config_error option" where
  "Validate c =
     (let s = cf_Snapshot c; format = lo_Format (cf_Logging c)
      in if sc_Interval s < 0 then Some BadInterval
         else if sc_JitterPC s < 0 \<or> 100 < sc_JitterPC s then Some BadJitter
         else if format \<noteq> [] \<and> format \<notin> {''journald'', ''json'', ''text''} then Some (BadFormat format)
         else bad_include (wc_Include (cf_Watch c)))"

section \<open>Loading\<close>

datatype load_error = LoadRead io_error | LoadParse | LoadInvalid config_error

definition Load ::
    "(config \<Rightarrow> string \<Rightarrow> config \<times> bool) \<Rightarrow> fs \<Rightarrow> string \<Rightarrow> config \<times> load_error option" where
  "Load decode fs path =
     (let cfg = Defaults
      in if path = [] then (cfg, None)
         else (case read_file fs path of
             Inl e \<Rightarrow> if e = NotExist then (cfg, None) else (cfg, Some (LoadRead e))
           | Inr b \<Rightarrow>
               let (cfg, failed) = decode cfg b
               in if failed then (cfg, Some LoadParse)
                  else (case Validate cfg of
                      Some e \<Rightarrow> (cfg, Some (LoadInvalid e))
                    | None \<Rightarrow> (cfg, None))))"

section \<open>What validation guarantees\<close>

definition valid_config :: "config \<Rightarrow> bool" where
  "valid_config c \<longleftrightarrow>
     0 \<le> sc_Interval (cf_Snapshot c) \<and> 0 \<le> sc_JitterPC (cf_Snapshot c) \<and> sc_JitterPC (cf_Snapshot c) \<le> 100 \<and>
     lo_Format (cf_Logging c) \<in> {[], ''journald'', ''json'', ''text''} \<and>
     set (wc_Include (cf_Watch c)) \<subseteq> {KindQEMU, KindLXC}"

lemma bad_include_None: "bad_include ks = None \<longleftrightarrow> set ks \<subseteq> {KindQEMU, KindLXC}"
  by (induction ks) (auto simp: kind_defs)

lemma Validate_None: "Validate c = None \<longleftrightarrow> valid_config c"
  by (auto simp: Validate_def valid_config_def Let_def bad_include_None)

lemma Defaults_valid: "valid_config Defaults"
  by (simp add: valid_config_def Defaults_def kind_defs)

section \<open>Properties\<close>

text \<open>A configuration that \<open>Load\<close> accepts is valid, whatever the file holds and whatever the
  decoder does with it: interval and jitter in their ranges, a known log format, and only
  known kinds to watch. Without a file the defaults are accepted, and an accepted file's
  configuration is exactly what the decoder made of the defaults.\<close>

theorem Load_valid:
  assumes "Load decode fs path = (cfg, None)"
  shows "valid_config cfg \<and>
    (cfg = Defaults \<or> (\<exists>b. read_file fs path = Inr b \<and> decode Defaults b = (cfg, False)))"
  using assms Defaults_valid
  by (auto simp: Load_def Let_def Validate_None split: if_splits sum.splits prod.splits option.splits)

definition conf_file :: fs where
  "conf_file = fs_of [(DefaultPath, RegFile (Inr []))]"

lemma conf_file_read: "read_file conf_file DefaultPath = Inr []" "DefaultPath \<noteq> []"
  by (simp_all add: conf_file_def fs_of_def read_file_def fopen_def DefaultPath_def)

lemma Load_valid_witness:
  "valid_config (fst (Load (\<lambda>c _. (c\<lparr>cf_Snapshot := (cf_Snapshot c)\<lparr>sc_JitterPC := 20\<rparr>\<rparr>, False))
     conf_file DefaultPath))"
proof -
  let ?d = "\<lambda>c _. (c\<lparr>cf_Snapshot := (cf_Snapshot c)\<lparr>sc_JitterPC := 20\<rparr>\<rparr>, False)"
  have "Load ?d conf_file DefaultPath = (fst (?d Defaults []), None)"
    by (simp add: Load_def conf_file_read Validate_def Defaults_def)
  from this Load_valid [OF this] show ?thesis by simp
qed

text \<open>Every rejection names its reason: \<open>Validate\<close> fails exactly on the invalid
  configurations, and \<open>Load\<close> turns the failure into an error instead of running with it.\<close>

theorem Validate_rejects:
  "(Validate c = None) = valid_config c \<and>
   (read_file fs path = Inr b \<and> path \<noteq> [] \<and> decode Defaults b = (c, False) \<longrightarrow>
      snd (Load decode fs path) = map_option LoadInvalid (Validate c))"
  by (auto simp: Validate_None Load_def Let_def split: option.split)

lemma Validate_rejects_witness:
  "snd (Load (\<lambda>c _. (c\<lparr>cf_Snapshot := (cf_Snapshot c)\<lparr>sc_JitterPC := 101\<rparr>\<rparr>, False)) conf_file DefaultPath) =
   Some (LoadInvalid BadJitter)"
  using Validate_rejects [of "Defaults\<lparr>cf_Snapshot := (cf_Snapshot Defaults)\<lparr>sc_JitterPC := 101\<rparr>\<rparr>"
      conf_file DefaultPath "[]" "\<lambda>c _. (c\<lparr>cf_Snapshot := (cf_Snapshot c)\<lparr>sc_JitterPC := 101\<rparr>\<rparr>, False)"]
  by (simp add: conf_file_read Validate_def Defaults_def)

end
