(* ===== verification/Tls.thy ===== *)
theory Tls
  imports Go_Files
begin

text \<open>
  The TLS loader (\<open>internal/tlsutil/loader.go\<close>): what it reloads, the configurations it
  hands out, and the chain verification of the cluster listener. Parsing and verifying
  certificates is the work of \<open>crypto/x509\<close> and \<open>crypto/tls\<close>, which are arguments: \<open>pool_of\<close>
  reads a PEM bundle, \<open>pair_of\<close> a certificate with its key, \<open>parse\<close> a certificate and
  \<open>verify\<close> checks a chain for the role of a server, as \<open>Verify\<close> does by default (with the roots of
  the system if it is given none).
\<close>

section \<open>Configurations\<close>

datatype client_auth = NoClientCert | RequireAnyClientCert | RequireAndVerifyClientCert

text \<open>The fields of \<open>tls.Config\<close> that the loader sets; \<open>tl_Verify\<close> is whether
  \<open>VerifyPeerCertificate\<close> is \<open>verifyChain\<close>, the method of the loader, which looks at the loader's
  pool when it is called (\<open>peer_error\<close> below).\<close>

record ('p, 'c) tls_conf =
  tl_MinTLS12 :: bool
  tl_Certificate :: 'c
  tl_RootCAs :: 'p
  tl_ClientCAs :: 'p
  tl_ClientAuth :: client_auth
  tl_InsecureSkipVerify :: bool
  tl_Verify :: bool

record ('p, 'c) loader =
  ld_caFile :: string
  ld_certFile :: string
  ld_keyFile :: string
  ld_verifyClient :: bool
  ld_cur :: "('p, 'c) tls_conf option"
  ld_caCur :: "'p option"

datatype tls_error = ReadCA io_error | NoPEM | LoadPair

definition Reload ::
    "(string \<Rightarrow> 'p option) \<Rightarrow> (fs \<Rightarrow> string \<Rightarrow> string \<Rightarrow> 'c option) \<Rightarrow> fs \<Rightarrow> ('p, 'c) loader
       \<Rightarrow> tls_error option \<times> ('p, 'c) loader" where
  "Reload pool_of pair_of fs l =
     (case read_file fs (ld_caFile l) of
        Inl e \<Rightarrow> (Some (ReadCA e), l)
      | Inr caPEM \<Rightarrow>
          (case pool_of caPEM of
             None \<Rightarrow> (Some NoPEM, l)
           | Some pool \<Rightarrow>
               (case pair_of fs (ld_certFile l) (ld_keyFile l) of
                  None \<Rightarrow> (Some LoadPair, l)
                | Some cert \<Rightarrow>
                    let cfg = \<lparr>tl_MinTLS12 = True, tl_Certificate = cert, tl_RootCAs = pool, tl_ClientCAs = pool,
                          tl_ClientAuth = NoClientCert, tl_InsecureSkipVerify = False, tl_Verify = False\<rparr>;
                        cfg = (if ld_verifyClient l then cfg\<lparr>tl_ClientAuth := RequireAndVerifyClientCert\<rparr> else cfg)
                    in (None, l\<lparr>ld_cur := Some cfg, ld_caCur := Some pool\<rparr>))))"

definition NewLoader ::
    "(string \<Rightarrow> 'p option) \<Rightarrow> (fs \<Rightarrow> string \<Rightarrow> string \<Rightarrow> 'c option) \<Rightarrow> fs
       \<Rightarrow> string \<Rightarrow> string \<Rightarrow> string \<Rightarrow> bool \<Rightarrow> tls_error + ('p, 'c) loader" where
  "NewLoader pool_of pair_of fs ca cert key verifyClient =
     (case Reload pool_of pair_of fs
             \<lparr>ld_caFile = ca, ld_certFile = cert, ld_keyFile = key, ld_verifyClient = verifyClient,
              ld_cur = None, ld_caCur = None\<rparr> of
        (Some e, _) \<Rightarrow> Inl e
      | (None, l) \<Rightarrow> Inr l)"

text \<open>
  What a listener is given. An inbound handshake asks \<open>GetConfigForClient\<close>, which looks at the
  loader at that moment and, for the cluster listener, applies its settings again; an outbound
  route uses the configuration itself, as it was made.
\<close>

record ('p, 'c) listener_tls =
  li_conf :: "('p, 'c) tls_conf"
  li_cluster :: bool

definition applyClusterSettings :: "('p, 'c) tls_conf \<Rightarrow> ('p, 'c) tls_conf" where
  "applyClusterSettings cfg =
     cfg\<lparr>tl_InsecureSkipVerify := True, tl_ClientAuth := RequireAnyClientCert, tl_Verify := True\<rparr>"

definition Server_tls :: "('p, 'c) loader \<Rightarrow> ('p, 'c) listener_tls option" where
  "Server_tls l = map_option (\<lambda>base. \<lparr>li_conf = base, li_cluster = False\<rparr>) (ld_cur l)"

definition Cluster_tls :: "('p, 'c) loader \<Rightarrow> ('p, 'c) listener_tls option" where
  "Cluster_tls l =
     map_option (\<lambda>s. s\<lparr>li_conf := applyClusterSettings (li_conf s), li_cluster := True\<rparr>) (Server_tls l)"

definition inbound :: "('p, 'c) listener_tls \<Rightarrow> ('p, 'c) loader \<Rightarrow> ('p, 'c) tls_conf option" where
  "inbound s l = (if li_cluster s then map_option applyClusterSettings (ld_cur l) else ld_cur l)"

definition outbound :: "('p, 'c) listener_tls \<Rightarrow> ('p, 'c) tls_conf" where
  "outbound s = li_conf s"

text \<open>The configuration of a client: its pool is fixed, its certificate is the current one.\<close>

record 'p client_tls =
  cl_MinTLS12 :: bool
  cl_ServerName :: string
  cl_RootCAs :: "'p option"

definition Client_tls :: "('p, 'c) loader \<Rightarrow> string \<Rightarrow> 'p client_tls" where
  "Client_tls l serverName = \<lparr>cl_MinTLS12 = True, cl_ServerName = serverName, cl_RootCAs = ld_caCur l\<rparr>"

definition client_certificate :: "('p, 'c) loader \<Rightarrow> 'c option" where
  "client_certificate l = map_option tl_Certificate (ld_cur l)"

definition Paths :: "('p, 'c) loader \<Rightarrow> string list" where
  "Paths l = [ld_caFile l, ld_certFile l, ld_keyFile l]"

section \<open>The chain of a cluster peer\<close>

record x509 =
  x_Raw :: string
  x_ExtKeyUsage :: "nat list"
  x_UnknownExtKeyUsage :: "string list"

definition clear_eku :: "x509 \<Rightarrow> x509" where
  "clear_eku c = c\<lparr>x_ExtKeyUsage := [], x_UnknownExtKeyUsage := []\<rparr>"

datatype chain_error = NoPeerCert | BadLeaf | BadChain

fun intermediates :: "(string \<Rightarrow> x509 option) \<Rightarrow> string list \<Rightarrow> x509 list" where
  "intermediates parse [] = []"
| "intermediates parse (raw # raws) =
     (case parse raw of
        None \<Rightarrow> intermediates parse raws
      | Some c \<Rightarrow> clear_eku c # intermediates parse raws)"

definition verifyChain ::
    "(string \<Rightarrow> x509 option) \<Rightarrow> ('p option \<Rightarrow> x509 list \<Rightarrow> x509 \<Rightarrow> bool) \<Rightarrow> ('p, 'c) loader \<Rightarrow> string list
       \<Rightarrow> chain_error option" where
  "verifyChain parse verify l rawCerts =
     (case rawCerts of
        [] \<Rightarrow> Some NoPeerCert
      | raw # rest \<Rightarrow>
          (case parse raw of
             None \<Rightarrow> Some BadLeaf
           | Some leaf \<Rightarrow>
               if verify (ld_caCur l) (intermediates parse rest) (clear_eku leaf) then None else Some BadChain))"

text \<open>
  What a configuration's \<open>VerifyPeerCertificate\<close> says to the certificates of a peer in a handshake,
  with the loader as it is at that moment.
\<close>

definition peer_error ::
    "(string \<Rightarrow> x509 option) \<Rightarrow> ('p option \<Rightarrow> x509 list \<Rightarrow> x509 \<Rightarrow> bool) \<Rightarrow> ('p, 'c) tls_conf \<Rightarrow> ('p, 'c) loader
       \<Rightarrow> string list \<Rightarrow> chain_error option" where
  "peer_error parse verify cfg l rawCerts = (if tl_Verify cfg then verifyChain parse verify l rawCerts else None)"

section \<open>Loaders over time\<close>

text \<open>What every loader that \<open>NewLoader\<close> made satisfies after any reloads.\<close>

definition loaded :: "('p, 'c) loader \<Rightarrow> bool" where
  "loaded l \<longleftrightarrow>
     (\<exists>cfg. ld_cur l = Some cfg \<and> ld_caCur l = Some (tl_RootCAs cfg) \<and> tl_ClientCAs cfg = tl_RootCAs cfg \<and>
        tl_MinTLS12 cfg \<and> \<not> tl_InsecureSkipVerify cfg \<and>
        tl_ClientAuth cfg = (if ld_verifyClient l then RequireAndVerifyClientCert else NoClientCert))"

lemmas tls_defs = Server_tls_def Cluster_tls_def inbound_def outbound_def applyClusterSettings_def client_certificate_def

lemma Reload_loaded:
  assumes "Reload pool_of pair_of fs l = (r, l')"
  shows "(r = None \<longrightarrow> loaded l') \<and> (r \<noteq> None \<longrightarrow> l' = l) \<and> ld_verifyClient l' = ld_verifyClient l"
  using assms by (auto simp: Reload_def loaded_def Let_def split: sum.splits option.splits)

lemma NewLoader_loaded:
  "NewLoader pool_of pair_of fs ca cert key v = Inr l \<Longrightarrow> loaded l \<and> ld_verifyClient l = v"
  by (auto simp: NewLoader_def split: prod.splits option.splits dest!: Reload_loaded)

definition reloads ::
    "(string \<Rightarrow> 'p option) \<Rightarrow> (fs \<Rightarrow> string \<Rightarrow> string \<Rightarrow> 'c option) \<Rightarrow> fs list \<Rightarrow> ('p, 'c) loader \<Rightarrow> ('p, 'c) loader" where
  "reloads pool_of pair_of fss l = fold (\<lambda>fs l. snd (Reload pool_of pair_of fs l)) fss l"

lemma reloads_loaded:
  "loaded l \<Longrightarrow> loaded (reloads pool_of pair_of fss l) \<and>
     ld_verifyClient (reloads pool_of pair_of fss l) = ld_verifyClient l"
  unfolding reloads_def
proof (induction fss arbitrary: l)
  case (Cons fs fss)
  obtain r l' where r: "Reload pool_of pair_of fs l = (r, l')" by (cases "Reload pool_of pair_of fs l")
  then have "loaded l'" "ld_verifyClient l' = ld_verifyClient l"
    using Reload_loaded [OF r] Cons.prems by auto
  then show ?case using Cons.IH [of l'] r by simp
qed simp

text \<open>What a file system offers the loader, and the last of several that offered something: the CA and
  the certificate that should be in use.\<close>

definition material ::
    "(string \<Rightarrow> 'p option) \<Rightarrow> (fs \<Rightarrow> string \<Rightarrow> string \<Rightarrow> 'c option) \<Rightarrow> string \<Rightarrow> string \<Rightarrow> string \<Rightarrow> fs \<Rightarrow> ('p \<times> 'c) option" where
  "material pool_of pair_of ca cert key fs =
     (case read_file fs ca of
        Inl _ \<Rightarrow> None
      | Inr b \<Rightarrow> (case (pool_of b, pair_of fs cert key) of (Some pool, Some c) \<Rightarrow> Some (pool, c) | _ \<Rightarrow> None))"

definition newest ::
    "(string \<Rightarrow> 'p option) \<Rightarrow> (fs \<Rightarrow> string \<Rightarrow> string \<Rightarrow> 'c option) \<Rightarrow> string \<Rightarrow> string \<Rightarrow> string \<Rightarrow> fs list \<Rightarrow> 'p \<times> 'c" where
  "newest pool_of pair_of ca cert key fss = last (List.map_filter (material pool_of pair_of ca cert key) fss)"

text \<open>A loader that has both from the same place.\<close>

definition holds :: "'p \<times> 'c \<Rightarrow> ('p, 'c) loader \<Rightarrow> bool" where
  "holds m l \<longleftrightarrow> ld_caCur l = Some (fst m) \<and>
     (\<exists>cfg. ld_cur l = Some cfg \<and> tl_ClientCAs cfg = fst m \<and> tl_RootCAs cfg = fst m \<and> tl_Certificate cfg = snd m)"

lemma Reload_holds:
  assumes "Reload pool_of pair_of fs l = (r, l')"
  shows "ld_caFile l' = ld_caFile l \<and> ld_certFile l' = ld_certFile l \<and> ld_keyFile l' = ld_keyFile l \<and>
    (case material pool_of pair_of (ld_caFile l) (ld_certFile l) (ld_keyFile l) fs of
       None \<Rightarrow> r \<noteq> None \<and> l' = l | Some m \<Rightarrow> r = None \<and> holds m l')"
  using assms
  by (auto simp: Reload_def material_def holds_def Let_def split: sum.splits option.splits)

lemma reloads_holds:
  assumes "holds m l"
  shows "holds (last (m # List.map_filter (material pool_of pair_of (ld_caFile l) (ld_certFile l) (ld_keyFile l)) fss))
    (reloads pool_of pair_of fss l)"
  using assms unfolding reloads_def
proof (induction fss arbitrary: l m)
  case (Cons fs fss)
  obtain r l' where r: "Reload pool_of pair_of fs l = (r, l')" by (cases "Reload pool_of pair_of fs l")
  note h = Reload_holds [OF r]
  show ?case
  proof (cases "material pool_of pair_of (ld_caFile l) (ld_certFile l) (ld_keyFile l) fs")
    case None
    then show ?thesis using Cons h r by (simp add: map_filter_simps)
  next
    case (Some m')
    then show ?thesis using Cons.IH [of m' l'] h r by (simp add: map_filter_simps)
  qed
qed (simp add: map_filter_simps)

lemma NewLoader_holds:
  assumes "NewLoader pool_of pair_of fs ca cert key v = Inr l"
  shows "\<exists>m. material pool_of pair_of ca cert key fs = Some m \<and> holds m l \<and>
    ld_caFile l = ca \<and> ld_certFile l = cert \<and> ld_keyFile l = key"
  using assms by (auto simp: NewLoader_def split: prod.splits option.splits dest!: Reload_holds)

text \<open>The chain check accepts exactly the peers that present a certificate that parses and that
  verifies, with its key usages cleared, with the current CA as root and those of the other
  certificates that parse as intermediates.\<close>

lemma verifyChain_accepts:
  "verifyChain parse verify l raws = None \<longleftrightarrow>
     (\<exists>raw rest leaf. raws = raw # rest \<and> parse raw = Some leaf \<and>
        verify (ld_caCur l) (map clear_eku (List.map_filter parse rest)) (clear_eku leaf))"
proof -
  have "intermediates parse rest = map clear_eku (List.map_filter parse rest)" for rest
    by (induction rest) (auto simp: map_filter_simps split: option.split)
  then show ?thesis
    by (auto simp: verifyChain_def split: list.split option.split)
qed

section \<open>Properties\<close>



text \<open>A failed reload changes nothing. A successful one is what every later inbound handshake
  uses, on whichever listener and whenever that was made: the new CA and the new certificate,
  which is also the one that clients present from then on.\<close>

theorem Reload_swaps:
  "case Reload pool_of pair_of fs l of
     (Some _, l') \<Rightarrow> l' = l
   | (None, l') \<Rightarrow> \<exists>b pool c k. read_file fs (ld_caFile l) = Inr b \<and> pool_of b = Some pool \<and>
       pair_of fs (ld_certFile l) (ld_keyFile l) = Some c \<and> ld_caCur l' = Some pool \<and>
       inbound s l' = Some k \<and> tl_ClientCAs k = pool \<and> tl_Certificate k = c \<and>
       client_certificate l' = Some c"
  by (auto simp: Reload_def tls_defs Let_def split: sum.split option.split)

end
