(* ===== verification/Bus.thy ===== *)
theory Bus
  imports Tls Pmxcfs Reach "HOL-Library.Multiset" "HOL-Library.List_Lexorder" "HOL-Library.Char_ord"
begin

text \<open>
  The embedded message bus (\<open>internal/bus\<close>): the options it starts the NATS server with, the
  start with its failures, publishing, the route manager that follows the cluster membership,
  and the log adapter. The NATS server and its client are arguments: whether the server
  accepts its options, becomes ready and takes a connection, and whether it accepts a reload;
  \<open>url_of\<close> parses a URL and \<open>marshal\<close> encodes a value, \<open>None\<close> when they fail.
\<close>

section \<open>Options\<close>

record ('p, 'c) bus_options =
  bo_ServerName :: string
  bo_ClientHost :: string
  bo_ClientPort :: int
  bo_ClientAdvertise :: string
  bo_ClusterHost :: string
  bo_ClusterPort :: int
  bo_ClusterAdvertise :: string
  bo_TLS :: "('p, 'c) listener_tls option"
  bo_ClusterTLS :: "('p, 'c) listener_tls option"
  bo_StaticRoutes :: "string list"
  bo_Reader :: "reader option"

record ('u, 'p, 'c) nats_options =
  no_ServerName :: string
  no_Host :: string
  no_Port :: int
  no_ClientAdvertise :: string
  no_NoSigs :: bool
  no_HTTPPort :: int
  no_ClusterName :: string
  no_ClusterHost :: string
  no_ClusterPort :: int
  no_ClusterAdvertise :: string
  no_ClusterTLS :: "('p, 'c) listener_tls option"
  no_ClusterTLSTimeout :: int
  no_TLSConfig :: "('p, 'c) listener_tls option"
  no_TLS :: bool
  no_AllowNonTLS :: bool
  no_TLSVerify :: bool
  no_TLSTimeout :: int
  no_Routes :: "'u list"

definition routesToURLs :: "(string \<Rightarrow> 'u option) \<Rightarrow> string list \<Rightarrow> 'u list" where
  "routesToURLs url_of raw = List.map_filter url_of raw"

text \<open>The options that \<open>Start\<close> builds.\<close>

definition start_options ::
    "(string \<Rightarrow> 'u option) \<Rightarrow> ('p, 'c) bus_options \<Rightarrow> ('u, 'p, 'c) nats_options" where
  "start_options url_of o1 =
     (let n = \<lparr>no_ServerName = bo_ServerName o1, no_Host = bo_ClientHost o1, no_Port = bo_ClientPort o1,
            no_ClientAdvertise = bo_ClientAdvertise o1, no_NoSigs = True, no_HTTPPort = - 1,
            no_ClusterName = ''proxmox-eventbus'', no_ClusterHost = bo_ClusterHost o1,
            no_ClusterPort = bo_ClusterPort o1, no_ClusterAdvertise = bo_ClusterAdvertise o1,
            no_ClusterTLS = bo_ClusterTLS o1, no_ClusterTLSTimeout = 0, no_TLSConfig = bo_TLS o1,
            no_TLS = False, no_AllowNonTLS = False, no_TLSVerify = False, no_TLSTimeout = 0,
            no_Routes = []\<rparr>;
          n = (case bo_TLS o1 of
                 None \<Rightarrow> n
               | Some t \<Rightarrow> n\<lparr>no_TLS := True, no_AllowNonTLS := False,
                   no_TLSVerify := (tl_ClientAuth (li_conf t) = RequireAndVerifyClientCert), no_TLSTimeout := 5\<rparr>);
          n = (if bo_ClusterTLS o1 \<noteq> None then n\<lparr>no_ClusterTLSTimeout := 5\<rparr> else n)
      in n\<lparr>no_Routes := no_Routes n @ routesToURLs url_of (bo_StaticRoutes o1)\<rparr>)"

section \<open>The server\<close>

text \<open>The NATS server and the in-process connection: a nil pointer, in use, or shut down;
  \<open>sv_routes\<close> is whether the route manager runs.\<close>

datatype handle = Absent | Live | Closed

record ('u, 'p, 'c) server =
  sv_opts :: "('p, 'c) bus_options"
  sv_ns :: handle
  sv_conn :: handle
  sv_natsOpts :: "('u, 'p, 'c) nats_options option"
  sv_routes :: bool

definition Bus_New :: "('p, 'c) bus_options \<Rightarrow> ('u, 'p, 'c) server" where
  "Bus_New o1 = \<lparr>sv_opts = o1, sv_ns = Absent, sv_conn = Absent, sv_natsOpts = None, sv_routes = False\<rparr>"

text \<open>The outcomes of the NATS server: of making it, of becoming ready, of connecting.\<close>

record ('u, 'p, 'c) nats_world =
  nw_new :: "('u, 'p, 'c) nats_options \<Rightarrow> bool"
  nw_ready :: bool
  nw_connect :: bool

datatype bus_error = NatsServer | NotReady | InProcConnect

definition Bus_Start ::
    "(string \<Rightarrow> 'u option) \<Rightarrow> ('u, 'p, 'c) nats_world \<Rightarrow> ('u, 'p, 'c) server
       \<Rightarrow> bus_error option \<times> ('u, 'p, 'c) server" where
  "Bus_Start url_of w s =
     (let nopts = start_options url_of (sv_opts s)
      in if \<not> nw_new w nopts then (Some NatsServer, s)
         else
           let s = s\<lparr>sv_ns := Live, sv_natsOpts := Some nopts\<rparr>
           in if \<not> nw_ready w then (Some NotReady, s)
              else if \<not> nw_connect w then (Some InProcConnect, s)
              else
                let s = s\<lparr>sv_conn := Live\<rparr>
                in (None, if bo_Reader (sv_opts s) \<noteq> None then s\<lparr>sv_routes := True\<rparr> else s))"

text \<open>\<open>Stop\<close> closes what there is and keeps the pointers.\<close>

definition shut :: "handle \<Rightarrow> handle" where
  "shut h = (if h = Absent then Absent else Closed)"

definition Bus_Stop :: "('u, 'p, 'c) server \<Rightarrow> ('u, 'p, 'c) server" where
  "Bus_Stop s = s\<lparr>sv_routes := False, sv_conn := shut (sv_conn s), sv_ns := shut (sv_ns s)\<rparr>"

datatype 'e publish_error = NotStarted | Marshal | PublishErr 'e

text \<open>
  What \<open>PublishJSON\<close> sends. \<open>publish\<close> is the connection's \<open>Publish\<close>: the error it returns for the
  state of the connection, the subject and the payload, if any (a closed connection, a payload
  that is too large, a full buffer).
\<close>

definition PublishJSON ::
    "('v \<Rightarrow> string option) \<Rightarrow> (handle \<Rightarrow> string \<Rightarrow> string \<Rightarrow> 'e option) \<Rightarrow> ('u, 'p, 'c) server \<Rightarrow> string \<Rightarrow> 'v
       \<Rightarrow> 'e publish_error + (string \<times> string)" where
  "PublishJSON marshal publish s subject v =
     (if sv_conn s = Absent then Inl NotStarted
      else case marshal v of
          None \<Rightarrow> Inl Marshal
        | Some b \<Rightarrow>
            (case publish (sv_conn s) subject b of
               Some e \<Rightarrow> Inl (PublishErr e)
             | None \<Rightarrow> Inr (subject, b)))"

section \<open>The route manager\<close>

text \<open>The NATS options in force and the key of the peers they were made for.\<close>

record ('u, 'p, 'c) routing =
  rt_opts :: "('u, 'p, 'c) nats_options"
  rt_last :: string

definition peer_ips :: "node list \<Rightarrow> string list" where
  "peer_ips peers = sort (filter (\<lambda>ip. ip \<noteq> []) (map nd_IP peers))"

definition route_url :: "int \<Rightarrow> string \<Rightarrow> string" where
  "route_url port ip = ''nats-route://'' @ ip @ '':'' @ show_int port"

definition route_urls :: "(string \<Rightarrow> 'u option) \<Rightarrow> ('p, 'c) bus_options \<Rightarrow> string list \<Rightarrow> 'u list" where
  "route_urls url_of o1 ips =
     List.map_filter (\<lambda>ip. url_of (route_url (bo_ClusterPort o1) ip)) ips @
     routesToURLs url_of (bo_StaticRoutes o1)"

text \<open>
  One round: the result of \<open>Peers\<close> and whether NATS accepts a reload are arguments. The first
  component is the reload that was attempted, if any.
\<close>

definition applyRoutes ::
    "(string \<Rightarrow> 'u option) \<Rightarrow> (('u, 'p, 'c) nats_options \<Rightarrow> bool) \<Rightarrow> ('p, 'c) bus_options
       \<Rightarrow> members_error + node list \<Rightarrow> ('u, 'p, 'c) routing
       \<Rightarrow> ('u, 'p, 'c) nats_options option \<times> ('u, 'p, 'c) routing" where
  "applyRoutes url_of reload o1 r s =
     (case r of
        Inl _ \<Rightarrow> (None, s)
      | Inr peers \<Rightarrow>
          let ips = peer_ips peers; key = join '','' ips
          in if key = rt_last s then (None, s)
             else
               let newOpts = (rt_opts s)\<lparr>no_Routes := route_urls url_of o1 ips\<rparr>
               in if \<not> reload newOpts then (Some newOpts, s)
                  else (Some newOpts, \<lparr>rt_opts = newOpts, rt_last = key\<rparr>))"

text \<open>
  The manager over time: it starts with the options of \<open>Bus_Start\<close> and an empty key, and every
  round may meet any membership and any outcome of the reload. An address never contains the
  comma that separates them in the key.
\<close>

definition routing_init :: "(string \<Rightarrow> 'u option) \<Rightarrow> ('p, 'c) bus_options \<Rightarrow> ('u, 'p, 'c) routing \<Rightarrow> bool" where
  "routing_init url_of o1 s \<longleftrightarrow> s = \<lparr>rt_opts = start_options url_of o1, rt_last = []\<rparr>"

definition comma_free :: "node list \<Rightarrow> bool" where
  "comma_free peers \<longleftrightarrow> list_all (\<lambda>n. CHR '','' \<notin> set (nd_IP n)) peers"

inductive route_step ::
    "(string \<Rightarrow> 'u option) \<Rightarrow> ('p, 'c) bus_options \<Rightarrow> ('u, 'p, 'c) routing \<Rightarrow> ('u, 'p, 'c) routing \<Rightarrow> bool"
  for url_of o1 where
  peers_failed: "applyRoutes url_of reload o1 (Inl e) s = (c, t) \<Longrightarrow> route_step url_of o1 s t"
| peers_read:
    "comma_free peers \<Longrightarrow> applyRoutes url_of reload o1 (Inr peers) s = (c, t) \<Longrightarrow> route_step url_of o1 s t"

section \<open>The log adapter\<close>

datatype log_level = LevelDebug | LevelInfo | LevelWarn | LevelError
datatype nats_log = Noticef | Warnf | Fatalf | Errorf | Debugf | Tracef

definition suppressedClusterTLSWarning :: string where
  "suppressedClusterTLSWarning =
     ''TLS certificate chain and hostname of solicited routes will not be verified.''"

text \<open>What the adapter logs for a formatted message of the NATS server.\<close>

fun adapt_log :: "nats_log \<Rightarrow> string \<Rightarrow> (log_level \<times> string) option" where
  "adapt_log Noticef msg = Some (LevelInfo, msg)"
| "adapt_log Warnf msg = (if contains msg suppressedClusterTLSWarning then None else Some (LevelWarn, msg))"
| "adapt_log Fatalf msg = Some (LevelError, msg)"
| "adapt_log Errorf msg = Some (LevelError, msg)"
| "adapt_log Debugf msg = Some (LevelDebug, msg)"
| "adapt_log Tracef msg = Some (LevelDebug, msg)"

section \<open>The invariant of the route manager\<close>

text \<open>
  The options in force are those of the start with the routes of some peers, whose key the
  manager remembers.
\<close>

definition ip_list :: "string list \<Rightarrow> bool" where
  "ip_list ips \<longleftrightarrow> list_all (\<lambda>ip. ip \<noteq> [] \<and> CHR '','' \<notin> set ip) ips"

definition route_inv :: "(string \<Rightarrow> 'u option) \<Rightarrow> ('p, 'c) bus_options \<Rightarrow> ('u, 'p, 'c) routing \<Rightarrow> bool" where
  "route_inv url_of o1 s \<longleftrightarrow>
     (\<exists>ips. ip_list ips \<and> rt_last s = join '','' ips \<and>
        rt_opts s = (start_options url_of o1)\<lparr>no_Routes := route_urls url_of o1 ips\<rparr>)"

lemma key_inj:
  assumes "ip_list xs" and "ip_list ys" and "join '','' xs = join '','' ys"
  shows "xs = ys"
proof -
  have empty: "join '','' zs = [] \<longleftrightarrow> zs = []" if "ip_list zs" for zs
    using that by (cases "('','', zs)" rule: join.cases) (auto simp: ip_list_def)
  show ?thesis
  proof (cases "xs = [] \<or> ys = []")
    case True
    then have "xs = [] \<and> ys = []" using empty [OF assms(1)] empty [OF assms(2)] assms(3) by auto
    then show ?thesis by simp
  next
    case False
    moreover have "list_all (\<lambda>ip. CHR '','' \<notin> set ip) xs" "list_all (\<lambda>ip. CHR '','' \<notin> set ip) ys"
      using assms(1,2) by (simp_all add: ip_list_def list_all_iff)
    ultimately have "split_on CHR '','' (join '','' xs) = xs" "split_on CHR '','' (join '','' ys) = ys"
      using split_on_join [of xs "CHR '',''"] split_on_join [of ys "CHR '',''"] by blast+
    then show ?thesis unfolding assms(3) by (rule trans [OF sym])
  qed
qed

lemma ip_list_peers: "comma_free peers \<Longrightarrow> ip_list (peer_ips peers)"
  by (auto simp: comma_free_def ip_list_def peer_ips_def list_all_iff)

lemma peer_ips_mset: "mset peers = mset peers' \<Longrightarrow> peer_ips peers = peer_ips peers'"
  unfolding peer_ips_def by (rule properties_for_sort) simp_all

lemma start_routes: "no_Routes (start_options url_of o1) = route_urls url_of o1 []"
  by (simp add: start_options_def route_urls_def Let_def map_filter_simps split: option.split)

lemma applyRoutes_inv:
  assumes "route_inv url_of o1 s" and "comma_free peers" and "applyRoutes url_of reload o1 (Inr peers) s = (c, t)"
  shows "route_inv url_of o1 t"
proof -
  obtain ips where "rt_opts s = (start_options url_of o1)\<lparr>no_Routes := route_urls url_of o1 ips\<rparr>"
    using assms(1) by (auto simp: route_inv_def)
  then have "(rt_opts s)\<lparr>no_Routes := route_urls url_of o1 (peer_ips peers)\<rparr> =
      (start_options url_of o1)\<lparr>no_Routes := route_urls url_of o1 (peer_ips peers)\<rparr>" by simp
  then have "t = s \<or> t = \<lparr>rt_opts = (start_options url_of o1)\<lparr>no_Routes := route_urls url_of o1 (peer_ips peers)\<rparr>,
      rt_last = join '','' (peer_ips peers)\<rparr>"
    using assms(3) by (auto simp: applyRoutes_def Let_def split: if_splits)
  then show ?thesis using assms(1) ip_list_peers [OF assms(2)] by (auto simp: route_inv_def)
qed

interpretation routing: invariant "routing_init url_of o1" "route_step url_of o1" "route_inv url_of o1" for url_of o1
proof
  fix s t
  show "routing_init url_of o1 s \<Longrightarrow> route_inv url_of o1 s"
    unfolding routing_init_def route_inv_def
    by (rule exI [of _ "[]"]) (simp add: ip_list_def flip: start_routes)
  show "route_inv url_of o1 s \<Longrightarrow> route_step url_of o1 s t \<Longrightarrow> route_inv url_of o1 t"
    by (erule route_step.cases) (auto simp: applyRoutes_def intro: applyRoutes_inv)
qed

section \<open>Properties\<close>

text \<open>C7: Whatever memberships, read errors and failed reloads came before, a round that can read
  the peers and reload the server leaves it with the options it was started with and exactly
  the routes to the peers that have an address, in the order of the addresses, followed by
  the static routes.\<close>

theorem routes_follow_members:
  assumes "reach (routing_init url_of o1) (route_step url_of o1) s"
    and "comma_free peers" and "\<And>n. reload n"
  shows "snd (applyRoutes url_of reload o1 (Inr peers) s) =
    \<lparr>rt_opts = (start_options url_of o1)\<lparr>no_Routes := route_urls url_of o1 (peer_ips peers)\<rparr>,
     rt_last = join '','' (peer_ips peers)\<rparr>"
proof -
  obtain ips where "ip_list ips" and s: "rt_last s = join '','' ips"
    "rt_opts s = (start_options url_of o1)\<lparr>no_Routes := route_urls url_of o1 ips\<rparr>"
    using routing.reachable_inv [OF assms(1)] by (auto simp: route_inv_def)
  then have "ips = peer_ips peers" if "join '','' (peer_ips peers) = join '','' ips"
    using key_inj [OF _ ip_list_peers [OF assms(2)]] that by simp
  then show ?thesis using assms(3) s by (cases s) (auto simp: applyRoutes_def Let_def)
qed

definition sample_bus :: "(unit, unit) bus_options" where
  "sample_bus =
     \<lparr>bo_ServerName = ''pve1'', bo_ClientHost = ''0.0.0.0'', bo_ClientPort = 4222, bo_ClientAdvertise = [],
      bo_ClusterHost = ''0.0.0.0'', bo_ClusterPort = 6222, bo_ClusterAdvertise = [], bo_TLS = None,
      bo_ClusterTLS = None, bo_StaticRoutes = [''nats-route://gw:6222''], bo_Reader = None\<rparr>"

definition sample_peers :: "node list" where
  "sample_peers =
     [\<lparr>nd_ID = 3, nd_Online = 1, nd_IP = ''10.0.0.3''\<rparr>, \<lparr>nd_ID = 4, nd_Online = 1, nd_IP = []\<rparr>,
      \<lparr>nd_ID = 2, nd_Online = 1, nd_IP = ''10.0.0.2''\<rparr>]"

lemma sample_peer_ips: "peer_ips sample_peers = [''10.0.0.2'', ''10.0.0.3'']" "comma_free sample_peers"
  by (simp_all add: peer_ips_def sample_peers_def comma_free_def less_eq_char_def)

lemma routes_follow_members_witness:
  "no_Routes (rt_opts (snd (applyRoutes Some (\<lambda>_. True) sample_bus (Inr sample_peers)
     \<lparr>rt_opts = start_options Some sample_bus, rt_last = []\<rparr>))) =
   [''nats-route://10.0.0.2:6222'', ''nats-route://10.0.0.3:6222'', ''nats-route://gw:6222'']"
proof -
  have r: "reach (routing_init Some sample_bus) (route_step Some sample_bus)
      \<lparr>rt_opts = start_options Some sample_bus, rt_last = []\<rparr>"
    by (rule reach_init) (simp add: routing_init_def)
  have p: "show_int 6222 = ''6222''"
    by (simp add: show_int_def show_nat_def show_base.simps digit_char_def char_of_def bit_iff_odd_drop_bit
        drop_bit_eq_div)
  show ?thesis
    unfolding routes_follow_members [OF r sample_peer_ips(2) TrueI]
    by (simp add: sample_peer_ips route_urls_def routesToURLs_def sample_bus_def route_url_def p map_filter_simps)
qed

text \<open>C18: A reload is attempted once per membership and until it succeeds: after a successful one
  the same peers, in any order of the node list, cause no further reload and no change; a
  failed one changes nothing, and the next round attempts the very same options again.\<close>

theorem routes_reload:
  assumes "applyRoutes url_of reload o1 (Inr peers) s = (Some n, t)" and "mset peers' = mset peers"
  shows "no_Routes n = route_urls url_of o1 (peer_ips peers) \<and>
    (if reload n then rt_opts t = n \<and> applyRoutes url_of reload' o1 (Inr peers') t = (None, t)
     else t = s \<and> fst (applyRoutes url_of reload' o1 (Inr peers') t) = Some n)"
proof -
  let ?key = "join '','' (peer_ips peers)"
  have key: "?key \<noteq> rt_last s" using assms(1) by (auto simp: applyRoutes_def Let_def)
  then have n: "n = (rt_opts s)\<lparr>no_Routes := route_urls url_of o1 (peer_ips peers)\<rparr>"
    "t = (if reload n then \<lparr>rt_opts = n, rt_last = ?key\<rparr> else s)"
    using assms(1) by (auto simp: applyRoutes_def Let_def split: if_splits)
  show ?thesis
    using key n by (simp add: applyRoutes_def Let_def peer_ips_mset [OF assms(2)])
qed

lemma routes_reload_witness:
  "fst (applyRoutes Some (\<lambda>_. False) sample_bus (Inr (rev sample_peers))
     (snd (applyRoutes Some (\<lambda>_. True) sample_bus (Inr sample_peers)
        \<lparr>rt_opts = start_options Some sample_bus, rt_last = []\<rparr>))) = None"
proof -
  let ?s = "\<lparr>rt_opts = start_options Some sample_bus, rt_last = []\<rparr>"
  obtain n t where a: "applyRoutes Some (\<lambda>_. True) sample_bus (Inr sample_peers) ?s = (Some n, t)"
    by (simp add: applyRoutes_def sample_peer_ips(1) Let_def)
  then show ?thesis using routes_reload [OF a, where peers' = "rev sample_peers" and reload' = "\<lambda>_. False"] by simp
qed

end
