(* ===== verification/Daemon.thy ===== *)
theory Daemon
  imports Watcher_Sys Enrich Snapshot Config Bus
begin

text \<open>
  The daemon (\<open>cmd/proxmox-eventbus/main.go\<close>): how it starts, from the configuration file
  to the running components; the bridge from the tasks watcher to the CloudEvents; and the
  subject under which each CloudEvent is published. What is outside the program is in the
  record \<open>outside\<close>, in addition to the file system and the clock.
\<close>

section \<open>Identity\<close>

definition nonEmpty :: "string \<Rightarrow> string \<Rightarrow> string" where
  "nonEmpty a b = (if a \<noteq> [] then a else b)"

text \<open>
  The loop of \<open>detectClusterName\<close> with its attempts left; a quarter of a second passes between
  two attempts. The result comes with the reader's cache and the time.
\<close>

definition retryDelay :: int where
  "retryDelay = 250 * 1000000"

definition maxAttempts :: nat where
  "maxAttempts = 20"

fun detect_loop ::
    "(string \<Rightarrow> members option) \<Rightarrow> (time \<Rightarrow> fs) \<Rightarrow> nat \<Rightarrow> time \<Rightarrow> reader \<Rightarrow> string \<times> reader \<times> time" where
  "detect_loop unmarshal env 0 now rd = ([], rd, now)"
| "detect_loop unmarshal env (Suc left) now rd =
     (case Members unmarshal (env now) now now rd of
        (Inr m, rd) \<Rightarrow> (trim_space (ci_Name (mb_Cluster m)), rd, now)
      | (Inl _, rd) \<Rightarrow>
          if left = 0 then ([], rd, now) else detect_loop unmarshal env left (now + retryDelay) rd)"

definition detectClusterName ::
    "(string \<Rightarrow> members option) \<Rightarrow> (time \<Rightarrow> fs) \<Rightarrow> time \<Rightarrow> reader \<Rightarrow> string \<times> reader \<times> time" where
  "detectClusterName unmarshal env now rd = detect_loop unmarshal env maxAttempts now rd"

definition cluster_name :: "config \<Rightarrow> string \<Rightarrow> string" where
  "cluster_name cfg detected =
     (let c = nonEmpty (trim_space (nc_ClusterName (cf_Node cfg))) detected
      in if c = [] then ''standalone'' else c)"

text \<open>The node's name, from the configuration, the reader and the host's name in this order.\<close>

definition node_name ::
    "(string \<Rightarrow> members option) \<Rightarrow> fs \<Rightarrow> time \<Rightarrow> string \<Rightarrow> config \<Rightarrow> reader \<Rightarrow> string \<times> reader" where
  "node_name unmarshal fs now hostname cfg rd =
     (let (n, rd) =
          (if nc_Name (cf_Node cfg) \<noteq> [] then (nc_Name (cf_Node cfg), rd)
           else
             let (r, rd) = Members unmarshal fs now now rd
             in (case LocalNodeName fs r of Inl _ \<Rightarrow> [] | Inr n \<Rightarrow> n, rd))
      in (if n = [] then hostname else n, rd))"

definition host_port :: "string \<Rightarrow> int \<Rightarrow> string" where
  "host_port ip port = ip @ '':'' @ show_int port"

definition resolveAdvertise ::
    "(string \<Rightarrow> members option) \<Rightarrow> fs \<Rightarrow> time \<Rightarrow> config \<Rightarrow> reader \<Rightarrow> string \<times> string \<times> reader" where
  "resolveAdvertise unmarshal fs now cfg rd =
     (let clientAdv = lc_Advertise (na_Client (cf_NATS cfg));
          clusterAdv = lc_Advertise (na_Cluster (cf_NATS cfg))
      in if clientAdv \<noteq> [] \<and> clusterAdv \<noteq> [] then (clientAdv, clusterAdv, rd)
         else
           let (r, rd) = Members unmarshal fs now now rd
           in (case LocalIP r of
                 Inl _ \<Rightarrow> (clientAdv, clusterAdv, rd)
               | Inr ip \<Rightarrow>
                   (if clientAdv = [] then host_port ip (lc_Port (na_Client (cf_NATS cfg))) else clientAdv,
                    if clusterAdv = [] then host_port ip (lc_Port (na_Cluster (cf_NATS cfg))) else clusterAdv,
                    rd)))"

section \<open>The start of the daemon\<close>

record ('u, 'p, 'c) outside =
  ou_decode :: "config \<Rightarrow> string \<Rightarrow> config \<times> bool"
  ou_unmarshal :: "string \<Rightarrow> members option"
  ou_hostname :: string
  ou_pool_of :: "string \<Rightarrow> 'p option"
  ou_pair_of :: "fs \<Rightarrow> string \<Rightarrow> string \<Rightarrow> 'c option"
  ou_url_of :: "string \<Rightarrow> 'u option"
  ou_nats :: "('u, 'p, 'c) nats_world"

record ('u, 'p, 'c) daemon =
  dm_config :: config
  dm_loader :: "('p, 'c) loader"
  dm_server :: "('u, 'p, 'c) server"
  dm_enricher :: enricher
  dm_include :: "kind list"
  dm_emitter :: "emitter option"
  dm_requests :: "string list"

datatype daemon_error = DaemonConfig load_error | DaemonTLS tls_error | DaemonBus bus_error

definition daemon_bus ::
    "config \<Rightarrow> string \<Rightarrow> string \<Rightarrow> string \<Rightarrow> ('p, 'c) loader \<Rightarrow> reader \<Rightarrow> ('p, 'c) bus_options" where
  "daemon_bus cfg node clientAdv clusterAdv l rd =
     (let n = cf_NATS cfg
      in \<lparr>bo_ServerName = nonEmpty (na_ServerName n) node,
          bo_ClientHost = lc_Host (na_Client n), bo_ClientPort = lc_Port (na_Client n),
          bo_ClientAdvertise = clientAdv,
          bo_ClusterHost = lc_Host (na_Cluster n), bo_ClusterPort = lc_Port (na_Cluster n),
          bo_ClusterAdvertise = clusterAdv,
          bo_TLS = Server_tls l, bo_ClusterTLS = Cluster_tls l,
          bo_StaticRoutes = dc_StaticRoutes (na_Discovery n), bo_Reader = Some rd\<rparr>)"

definition daemon_enricher :: "config \<Rightarrow> string \<Rightarrow> string \<Rightarrow> reader \<Rightarrow> enricher" where
  "daemon_enricher cfg cluster node rd =
     \<lparr>en_Cluster = cluster, en_Node = node, en_Reader = rd_root rd, en_ProcRoot = [],
      en_TasksRoot = wc_TasksDir (cf_Watch cfg), en_Wait = 0, en_Poll = 0, en_targets = None\<rparr>"

definition daemon_emitter :: "config \<Rightarrow> string \<Rightarrow> string \<Rightarrow> reader \<Rightarrow> emitter" where
  "daemon_emitter cfg cluster node rd =
     \<lparr>em_Cluster = cluster, em_Node = node, em_Interval = sc_Interval (cf_Snapshot cfg),
      em_JitterPC = sc_JitterPC (cf_Snapshot cfg), em_Reader = rd_root rd,
      em_Probe = \<lparr>pr_RunDir = [], pr_CgroupV2 = [], pr_ProcRoot = [], pr_UseQMP = sc_UseQMP (cf_Snapshot cfg)\<rparr>\<rparr>"

text \<open>\<open>runDaemon\<close> up to its publisher loop, started at \<open>now\<close> with the configuration \<open>path\<close>;
  \<open>dm_requests\<close> are the subjects it subscribes to (a failed subscription is only logged).\<close>

definition daemon_start ::
    "('u, 'p, 'c) outside \<Rightarrow> (time \<Rightarrow> fs) \<Rightarrow> time \<Rightarrow> string \<Rightarrow> daemon_error + ('u, 'p, 'c) daemon" where
  "daemon_start out env now path =
     (case Load (ou_decode out) (env now) path of
        (_, Some e) \<Rightarrow> Inl (DaemonConfig e)
      | (cfg, None) \<Rightarrow>
          let (detected, rd, now) =
                detectClusterName (ou_unmarshal out) env now (Reader_New (nc_PmxcfsRoot (cf_Node cfg)));
              cluster = cluster_name cfg detected;
              (node, rd) = node_name (ou_unmarshal out) (env now) now (ou_hostname out) cfg rd;
              tls = na_TLS (cf_NATS cfg)
          in (case NewLoader (ou_pool_of out) (ou_pair_of out) (env now)
                     (tc_CAFile tls) (tc_CertFile tls) (tc_KeyFile tls) (tc_VerifyClient tls) of
                Inl e \<Rightarrow> Inl (DaemonTLS e)
              | Inr l \<Rightarrow>
                  let (clientAdv, clusterAdv, rd) = resolveAdvertise (ou_unmarshal out) (env now) now cfg rd
                  in (case Bus_Start (ou_url_of out) (ou_nats out)
                             (Bus_New (daemon_bus cfg node clientAdv clusterAdv l rd)) of
                        (Some e, _) \<Rightarrow> Inl (DaemonBus e)
                      | (None, server) \<Rightarrow>
                          let on = sc_Enabled (cf_Snapshot cfg)
                          in Inr \<lparr>dm_config = cfg, dm_loader = l, dm_server = server,
                               dm_enricher = daemon_enricher cfg cluster node rd,
                               dm_include = wc_Include (cf_Watch cfg),
                               dm_emitter = (if on then Some (daemon_emitter cfg cluster node rd) else None),
                               dm_requests =
                                 (if on then [SubjectSnapshotRequestCluster cluster,
                                    SubjectSnapshotRequestNode cluster node] else [])\<rparr>)))"

section \<open>The bridge from the watcher\<close>

text \<open>The loop of \<open>runWatcher\<close>: the start times of running tasks, and the enricher.\<close>

record bridge =
  br_starts :: "string \<rightharpoonup> time"
  br_enricher :: enricher

text \<open>
  One event of the watcher, received at \<open>now\<close>; \<open>uid\<close> is the id that \<open>New\<close> draws. A missing start
  time is Go's zero time. The CloudEvent goes to the publisher.
\<close>

definition bridge_step ::
    "(time \<Rightarrow> fs) \<Rightarrow> (time \<Rightarrow> nat) \<Rightarrow> task_event \<times> string \<times> time \<Rightarrow> bridge \<Rightarrow> cloud_event \<times> bridge" where
  "bridge_step env delay inp br =
     (let (ev, uid, now) = inp;
          starts = (if tev_Phase ev = PhaseStarted then (br_starts br)(raw_of ev \<mapsto> tev_ObsTime ev) else br_starts br);
          start = (case starts (raw_of ev) of None \<Rightarrow> 0 | Some t \<Rightarrow> t);
          (ce, e, _) = Lifecycle env delay uid now ev start (br_enricher br);
          starts = (if tev_Phase ev = PhaseFinished \<or> tev_Phase ev = PhaseFailed
                    then starts(raw_of ev := None) else starts)
      in (ce, \<lparr>br_starts = starts, br_enricher = e\<rparr>))"

fun bridge_run ::
    "(time \<Rightarrow> fs) \<Rightarrow> (time \<Rightarrow> nat) \<Rightarrow> (task_event \<times> string \<times> time) list \<Rightarrow> bridge \<Rightarrow> cloud_event list \<times> bridge" where
  "bridge_run env delay [] br = ([], br)"
| "bridge_run env delay (inp # inps) br =
     (let (ce, br) = bridge_step env delay inp br;
          (ces, br) = bridge_run env delay inps br
      in (ce # ces, br))"

definition bridge_init :: "enricher \<Rightarrow> bridge" where
  "bridge_init e = \<lparr>br_starts = Map.empty, br_enricher = e\<rparr>"

section \<open>Publishing\<close>

definition subjectFor :: "cloud_event \<Rightarrow> string" where
  "subjectFor ev =
     (let d = ce_Data ev
      in if ce_Type ev = TypeSnapshotComplete then SubjectSnapshotComplete (ed_Cluster d) (ed_Node d)
         else SubjectLifecycle (ed_Cluster d) (ed_Node d) (ed_Kind d) (ed_VMID d) (ed_Action d) (ed_Phase d))"

text \<open>One event of the publisher loop: what reaches the connection, or the error that is logged.\<close>

definition publish_step ::
    "(cloud_event \<Rightarrow> string option) \<Rightarrow> (handle \<Rightarrow> string \<Rightarrow> string \<Rightarrow> 'e option) \<Rightarrow> ('u, 'p, 'c) server
       \<Rightarrow> cloud_event \<Rightarrow> 'e publish_error + (string \<times> string)" where
  "publish_step marshal publish server ev = PublishJSON marshal publish server (subjectFor ev) ev"

section \<open>Start times over a sequence of events\<close>

text \<open>The start time that the bridge holds for the task \<open>r\<close>, after one event and after several.\<close>

definition track :: "string \<Rightarrow> task_event \<Rightarrow> time option \<Rightarrow> time option" where
  "track r ev st =
     (if raw_of ev \<noteq> r then st
      else if tev_Phase ev = PhaseStarted then Some (tev_ObsTime ev)
      else if terminal (tev_Phase ev) then None
      else st)"

definition start_of :: "string \<Rightarrow> task_event list \<Rightarrow> time option" where
  "start_of r evs = fold (track r) evs None"

lemma start_of_simps [simp]:
  "start_of r [] = None" "start_of r (evs @ [ev]) = track r ev (start_of r evs)"
  by (simp_all add: start_of_def)

lemma bridge_step_starts:
  "br_starts (snd (bridge_step env delay inp br)) r = track r (fst inp) (br_starts br r)"
  by (simp add: bridge_step_def track_def terminal_def Let_def split_beta)

lemma bridge_run_starts:
  "br_starts (snd (bridge_run env delay inps br)) r = fold (track r) (map fst inps) (br_starts br r)"
  by (induction inps arbitrary: br) (simp_all add: Let_def split_beta bridge_step_starts)

lemma bridge_run_length: "length (fst (bridge_run env delay inps br)) = length inps"
  by (induction inps arbitrary: br) (simp_all add: Let_def split_beta)

lemma bridge_run_nth:
  "i < length inps \<Longrightarrow>
   fst (bridge_run env delay inps br) ! i =
     fst (bridge_step env delay (inps ! i) (snd (bridge_run env delay (take i inps) br)))"
proof (induction inps arbitrary: br i)
  case (Cons inp inps)
  then show ?case by (cases i) (simp_all add: Let_def split_beta)
qed simp

text \<open>A start time that is held is the one of a started event with no other start or end since.\<close>

definition since_start :: "string \<Rightarrow> task_event list \<Rightarrow> nat \<Rightarrow> bool" where
  "since_start r evs j \<longleftrightarrow>
     j < length evs \<and> raw_of (evs ! j) = r \<and> tev_Phase (evs ! j) = PhaseStarted \<and>
     (\<forall>m. j < m \<and> m < length evs \<and> raw_of (evs ! m) = r \<longrightarrow>
        tev_Phase (evs ! m) \<noteq> PhaseStarted \<and> \<not> terminal (tev_Phase (evs ! m)))"

lemma since_start_snoc:
  "since_start r evs j \<Longrightarrow>
   raw_of ev = r \<longrightarrow> tev_Phase ev \<noteq> PhaseStarted \<and> \<not> terminal (tev_Phase ev) \<Longrightarrow>
   since_start r (evs @ [ev]) j"
  by (auto simp: since_start_def nth_append less_Suc_eq)

lemma start_of_Some:
  "start_of r evs = Some t \<Longrightarrow> \<exists>j. since_start r evs j \<and> tev_ObsTime (evs ! j) = t"
proof (induction evs rule: rev_induct)
  case (snoc ev evs)
  show ?case
  proof (cases "raw_of ev = r \<and> tev_Phase ev = PhaseStarted")
    case True
    then have "since_start r (evs @ [ev]) (length evs)" by (auto simp: since_start_def)
    then show ?thesis using True snoc.prems by (intro exI [of _ "length evs"]) (simp add: track_def)
  next
    case False
    then have "start_of r evs = Some t" and other: "raw_of ev = r \<longrightarrow> tev_Phase ev \<noteq> PhaseStarted \<and> \<not> terminal (tev_Phase ev)"
      using snoc.prems by (auto simp: track_def split: if_splits)
    then obtain j where j: "since_start r evs j" "tev_ObsTime (evs ! j) = t" using snoc.IH by blast
    then have "since_start r (evs @ [ev]) j \<and> tev_ObsTime ((evs @ [ev]) ! j) = t"
      using since_start_snoc [OF j(1) other] by (simp add: nth_append since_start_def)
    then show ?thesis by blast
  qed
qed simp

text \<open>On events of the four phases, a start time is held exactly while the task is running.\<close>

definition phased :: "task_event \<Rightarrow> bool" where
  "phased ev \<longleftrightarrow> tev_Phase ev = PhaseStarted \<or> terminal (tev_Phase ev) \<or> tev_Phase ev = PhaseSynced"

lemma not_synced [simp]:
  "PhaseStarted \<noteq> PhaseSynced" "\<not> terminal PhaseStarted" "\<not> terminal PhaseSynced"
  by (simp_all add: terminal_def)

lemma start_of_life:
  "list_all phased evs \<Longrightarrow> life False (lifeline r evs) = Some b \<Longrightarrow> (start_of r evs \<noteq> None) = b"
proof (induction evs arbitrary: b rule: rev_induct)
  case (snoc ev evs)
  obtain b0 where b0: "life False (lifeline r evs) = Some b0"
    using snoc.prems(2) by (auto simp: life_append split: option.splits)
  then have "(start_of r evs \<noteq> None) = b0" using snoc by simp
  then show ?case
    using snoc.prems b0 by (auto simp: life_append track_def phased_def terminal_def split: if_splits)
qed simp

text \<open>What the watcher hands to the bridge.\<close>

lemma ev_ok_phased: "ev_ok inc ev \<Longrightarrow> phased ev"
  by (auto simp: ev_ok_def phased_def terminal_def end_phase_def)

lemma watcher_out:
  assumes "reach winit (wstep inc dir) s"
  shows "list_all (ev_ok inc) (sy_out s) \<and> (\<exists>b. life False (lifeline r (sy_out s)) = Some b)"
proof -
  have "life False (lifeline r (hist s)) = Some (stage_of (known_at (sy_known s) r) = Running)"
    using lives.reachable_rel [OF assms] by (simp add: life_inv_def)
  then show ?thesis
    using events.reachable_inv [OF assms]
    by (auto simp: hist_def sent_def life_append events_inv_def split: option.splits)
qed

text \<open>Before the end of a task the bridge holds its start time.\<close>

lemma start_before_end:
  assumes "list_all phased (evs @ ev # rest)" and "life False (lifeline (raw_of ev) (evs @ ev # rest)) = Some b"
    and "terminal (tev_Phase ev)"
  shows "start_of (raw_of ev) evs \<noteq> None"
proof -
  obtain b0 where b0: "life False (lifeline (raw_of ev) evs) = Some b0"
    using assms(2) by (auto simp: life_append split: option.splits)
  have "tev_Phase ev \<noteq> PhaseStarted" "tev_Phase ev \<noteq> PhaseSynced" using assms(3) by auto
  then have "b0" using assms(2) b0 by (auto simp: life_append split: if_splits)
  then show ?thesis using start_of_life [OF _ b0] assms(1) by simp
qed

lemma Lifecycle_duration:
  assumes "Lifecycle env delay uid now inp taskStart e = (ev, e', now')"
  shows "ed_DurationMS (ce_Data ev) =
      (if terminal (tev_Phase inp) \<and> taskStart \<noteq> 0 then Some (milliseconds (ce_Time ev - taskStart)) else None)"
  using assms
  by (cases "ReadVMConfig (env now) (en_Reader e) (tev_Kind inp) (VMID (tev_UPID inp))")
    (auto simp: Lifecycle_def Let_def New_def with_config_def zero_data_def split: if_splits prod.splits)

section \<open>Subjects\<close>

text \<open>A token that NATS accepts in a subject: not empty, without separators, wildcards and spaces.\<close>

definition nats_token :: "string \<Rightarrow> bool" where
  "nats_token t \<longleftrightarrow> t \<noteq> [] \<and> list_all safe_char t"

lemma Lifecycle_subject:
  assumes "Lifecycle env delay uid now inp taskStart e = (ev, e', now')"
  shows "subjectFor ev =
    (if TypeFor (tev_Kind inp) (tev_Action inp) (tev_Phase inp) = TypeSnapshotComplete
     then SubjectSnapshotComplete (en_Cluster e) (en_Node e)
     else SubjectLifecycle (en_Cluster e) (en_Node e) (tev_Kind inp) (VMID (tev_UPID inp)) (tev_Action inp) (tev_Phase inp))"
  using assms
  by (cases "ReadVMConfig (env now) (en_Reader e) (tev_Kind inp) (VMID (tev_UPID inp))")
    (auto simp: Lifecycle_def Let_def New_def with_config_def zero_data_def subjectFor_def
      split: if_splits prod.splits)

lemma Lifecycle_keeps:
  assumes "Lifecycle env delay uid now inp taskStart e = (ev, e', now')"
  shows "en_Cluster e' = en_Cluster e \<and> en_Node e' = en_Node e"
proof (cases "tev_Action inp = ActionMigrate")
  case True
  then obtain r where "e' = snd (migrate_part inp r e)"
    using assms by (auto simp: Lifecycle_def Let_def split_beta)
  then show ?thesis using migrate_part_keeps [of inp r e] by simp
next
  case False
  then show ?thesis using assms by (simp add: Lifecycle_def Let_def)
qed

lemma bridge_run_keeps:
  "en_Cluster (br_enricher (snd (bridge_run env delay inps br))) = en_Cluster (br_enricher br) \<and>
   en_Node (br_enricher (snd (bridge_run env delay inps br))) = en_Node (br_enricher br)"
proof (induction inps arbitrary: br)
  case (Cons inp inps)
  have "en_Cluster (br_enricher (snd (bridge_step env delay inp br))) = en_Cluster (br_enricher br) \<and>
      en_Node (br_enricher (snd (bridge_step env delay inp br))) = en_Node (br_enricher br)"
    by (auto simp: bridge_step_def Let_def split: prod.split dest: Lifecycle_keeps)
  then show ?case using Cons [of "snd (bridge_step env delay inp br)"] by (simp add: Let_def split_beta)
qed simp

lemma safe_token: "nats_token (safe s)"
  using safe_chars [of s] by (simp add: nats_token_def)

lemma worker_tokens:
  "list_all (\<lambda>(t, k, a). nats_token k \<and> nats_token a \<and> k \<noteq> ''snapshot'') workerTypes"
  by (simp add: workerTypes_def kind_defs action_defs nats_token_def safe_char_def less_eq_char_def)

lemma phase_tokens:
  "nats_token PhaseStarted" "nats_token PhaseFinished" "nats_token PhaseFailed" "nats_token PhaseSynced"
  "nats_token PhaseSnapshot" "nats_token ActionState" "nats_token KindQEMU" "nats_token KindLXC"
  by (simp_all add: phase_defs action_defs kind_defs nats_token_def safe_char_def less_eq_char_def)

lemma nats_token_dot: "nats_token t \<Longrightarrow> CHR ''.'' \<notin> set t"
  by (auto simp: nats_token_def list_all_iff)

lemma ev_ok_tokens:
  assumes "ev_ok inc ev"
  shows "nats_token (tev_Kind ev)" "nats_token (tev_Action ev)" "nats_token (tev_Phase ev)" "tev_Kind ev \<noteq> ''snapshot''"
proof -
  have "(up_Type (tev_UPID ev), tev_Kind ev, tev_Action ev) \<in> set workerTypes"
    using assms WorkerTypeMap_cases by (auto simp: ev_ok_def)
  then show "nats_token (tev_Kind ev)" "nats_token (tev_Action ev)" "tev_Kind ev \<noteq> ''snapshot''"
    using worker_tokens by (auto simp: list_all_iff)
  show "nats_token (tev_Phase ev)"
    using assms phase_tokens by (auto simp: ev_ok_def end_phase_def split: if_splits)
qed

lemma show_int_token: "nats_token (show_int i)"
proof -
  have "safe_char c" if "(of_char c :: nat) = 45 \<or> 48 \<le> (of_char c :: nat) \<and> (of_char c :: nat) \<le> 57" for c
  proof (cases "(of_char c :: nat) = 45")
    case True
    then have "(of_char c :: nat) = of_char (CHR ''-'')" by simp
    then have "c = CHR ''-''" unfolding of_char_eq_iff .
    then show ?thesis by (simp add: safe_char_def)
  qed (use that in \<open>simp add: safe_char_def less_eq_char_def\<close>)
  then show ?thesis
    using show_int_chars [of _ i] by (simp add: nats_token_def list_all_iff)
qed

lemma pve_token: "nats_token ''pve''" "nats_token ''snapshot''" "nats_token ''complete''"
  by (simp_all add: nats_token_def safe_char_def less_eq_char_def)

lemma lifecycle_type:
  assumes "nats_token k" and "nats_token a" and "nats_token p"
  shows "TypeFor k a p \<noteq> TypeSnapshotComplete"
  using TypeFor_tokens [of k a p] TypeSnapshotComplete_tokens assms nats_token_dot by auto

text \<open>The seven tokens of an event about a VM.\<close>

lemma lifecycle_tokens:
  assumes "nats_token k" and "nats_token a" and "nats_token p"
  shows "split_on CHR ''.'' (SubjectLifecycle c n k v a p) = [''pve'', safe c, safe n, k, show_int v, a, p] \<and>
    list_all nats_token [''pve'', safe c, safe n, k, show_int v, a, p]"
  using SubjectLifecycle_tokens [of k a p] assms nats_token_dot
  by (simp add: safe_token show_int_token pve_token)

lemma bridge_subject:
  assumes "ev_ok inc ev"
  shows "subjectFor (fst (bridge_step env delay (ev, uid, now) br)) =
    SubjectLifecycle (en_Cluster (br_enricher br)) (en_Node (br_enricher br)) (tev_Kind ev)
      (VMID (tev_UPID ev)) (tev_Action ev) (tev_Phase ev)"
  using lifecycle_type [OF ev_ok_tokens(1,2,3) [OF assms]]
  by (auto simp: bridge_step_def Let_def dest!: Lifecycle_subject split: prod.split)

section \<open>Properties of the bridge\<close>

lemma phased_out: "reach winit (wstep inc dir) s \<Longrightarrow> list_all phased (sy_out s)"
  using watcher_out ev_ok_phased by (fastforce simp: list_all_iff)

lemma bridge_init_starts [simp]: "br_starts (bridge_init e) r = None"
  by (simp add: bridge_init_def)

lemma bridge_starts_at:
  "br_starts (snd (bridge_run env delay inps (bridge_init e))) r = start_of r (map fst inps)"
  by (simp add: bridge_run_starts start_of_def)

lemma bridge_duration:
  assumes "start_of (raw_of ev) evs = Some t" and "terminal (tev_Phase ev)"
    and "br_starts br (raw_of ev) = start_of (raw_of ev) evs"
    and "ce = fst (bridge_step env delay (ev, uid, now) br)"
  shows "ed_DurationMS (ce_Data ce) = (if t = 0 then None else Some (milliseconds (ce_Time ce - t)))"
  using assms
  by (auto simp: bridge_step_def Let_def terminal_def split: prod.splits dest!: Lifecycle_duration)

text \<open>C2: The duration on a finished or failed event is measured from the task's own start: for
  every schedule of the watcher and everything it has read, each such event follows a started
  event of the same task with no other start or end of it in between, and the duration is the
  time from that observation to the event, in milliseconds (no duration only if the
  observation has Go's zero time).\<close>

theorem bridge_durations:
  assumes "reach winit (wstep inc dir) s" and "map fst inps = sy_out s"
    and "i < length inps" and "ev = sy_out s ! i" and "terminal (tev_Phase ev)"
    and "ce = fst (bridge_run env delay inps (bridge_init e)) ! i"
  shows "\<exists>j < i. since_start (raw_of ev) (take i (sy_out s)) j \<and>
    ed_DurationMS (ce_Data ce) =
      (let t = tev_ObsTime (sy_out s ! j) in if t = 0 then None else Some (milliseconds (ce_Time ce - t)))"
proof -
  let ?r = "raw_of ev" and ?before = "take i (sy_out s)"
  have len: "i < length (sy_out s)" using assms(2,3) by (metis length_map)
  then have out: "sy_out s = ?before @ ev # drop (Suc i) (sy_out s)" by (simp add: assms(4) id_take_nth_drop)
  obtain b where "life False (lifeline ?r (sy_out s)) = Some b" using watcher_out [OF assms(1)] by blast
  then have "start_of ?r ?before \<noteq> None"
    using start_before_end [of ?before ev "drop (Suc i) (sy_out s)" b] phased_out [OF assms(1)] assms(5)
    by (simp flip: out)
  then obtain t where t: "start_of ?r ?before = Some t" by blast
  then obtain j where j: "since_start ?r ?before j" "tev_ObsTime (?before ! j) = t"
    using start_of_Some by blast
  obtain uid now where inp: "inps ! i = (ev, uid, now)"
    using assms(2,3,4) by (metis eq_fst_iff nth_map)
  have "br_starts (snd (bridge_run env delay (take i inps) (bridge_init e))) ?r = start_of ?r ?before"
    by (simp add: bridge_starts_at flip: take_map assms(2))
  then have "ed_DurationMS (ce_Data ce) = (if t = 0 then None else Some (milliseconds (ce_Time ce - t)))"
    using bridge_duration [OF t assms(5)] bridge_run_nth [OF assms(3)] assms(6) inp by simp
  moreover have "j < i" "sy_out s ! j = ?before ! j" using j(1) len by (simp_all add: since_start_def)
  ultimately show ?thesis using j by (auto simp: Let_def)
qed

text \<open>Both events of a migration have been received.\<close>

definition received :: sys where
  "received = after_end\<lparr>sy_chan := [], sy_out := [started_ev, finished_ev]\<rparr>"

lemma reach_received: "reach winit (wstep (\<lambda>_. True) ''/tasks'') received"
  using reach_steps [OF reach_after_end recv_all]
  by (simp add: received_def after_end_def before_mark_def)

lemma received_out: "sy_out received = [started_ev, finished_ev]"
  by (simp add: received_def)

lemma bridge_durations_witness:
  "let ce = fst (bridge_run (\<lambda>_. fs_of []) (\<lambda>_. 0) [(started_ev, ''a'', 10), (finished_ev, ''b'', 20)]
       (bridge_init sample_enricher)) ! 1
   in ed_DurationMS (ce_Data ce) = Some (milliseconds (ce_Time ce - 1))"
proof -
  let ?inps = "[(started_ev, ''a'', 10), (finished_ev, ''b'', 20)]"
  have "\<exists>j < (1::nat). since_start (raw_of finished_ev) (take 1 (sy_out received)) j \<and>
      ed_DurationMS (ce_Data (fst (bridge_run (\<lambda>_. fs_of []) (\<lambda>_. 0) ?inps (bridge_init sample_enricher)) ! 1)) =
      (let t = tev_ObsTime (sy_out received ! j) in
         if t = 0 then None
         else Some (milliseconds (ce_Time (fst (bridge_run (\<lambda>_. fs_of []) (\<lambda>_. 0) ?inps (bridge_init sample_enricher)) ! 1) - t)))"
    by (rule bridge_durations [OF reach_received, of ?inps])
      (simp_all add: received_out terminal_def finished_ev_def del: bridge_run.simps)
  then show ?thesis by (simp add: received_out started_ev_def Let_def del: bridge_run.simps)
qed

text \<open>C11: The bridge holds start times for exactly the tasks that are running as far as it has
  been told, so that its map empties when they end and does not grow with the number of tasks
  seen.\<close>

theorem bridge_starts:
  assumes "reach winit (wstep inc dir) s" and "map fst inps = sy_out s"
  shows "dom (br_starts (snd (bridge_run env delay inps (bridge_init e)))) =
    {r. life False (lifeline r (sy_out s)) = Some True}"
proof -
  have "(start_of r (sy_out s) \<noteq> None) = (life False (lifeline r (sy_out s)) = Some True)" for r
  proof -
    obtain b where b: "life False (lifeline r (sy_out s)) = Some b" using watcher_out [OF assms(1)] by blast
    then show ?thesis using start_of_life [OF phased_out [OF assms(1)] b] by simp
  qed
  then show ?thesis by (auto simp: dom_def bridge_starts_at assms(2))
qed

lemma bridge_starts_witness:
  "dom (br_starts (snd (bridge_run (\<lambda>_. fs_of []) (\<lambda>_. 0) [(started_ev, ''a'', 10), (finished_ev, ''b'', 20)]
     (bridge_init sample_enricher)))) = {}"
proof -
  let ?inps = "[(started_ev, ''a'', 10), (finished_ev, ''b'', 20)]"
  have "map fst ?inps = sy_out received" by (simp add: received_out)
  from bridge_starts [OF reach_received this, of "\<lambda>_. fs_of []" "\<lambda>_. 0" sample_enricher]
  show ?thesis by (simp add: received_out started_ev_def finished_ev_def raw_of_def del: bridge_run.simps)
qed

text \<open>C5: Every event the watcher reports is published under the seven tokens of the documented
  subject, with the cluster and node of the daemon (sanitised) and the event's kind, VM id,
  action and phase, and every token is one that NATS accepts and that no wildcard matches by
  accident: not empty, of letters, digits, hyphens and underscores.\<close>

theorem lifecycle_published:
  assumes "reach winit (wstep inc dir) s" and "map fst inps = sy_out s"
    and "i < length inps" and "ev = sy_out s ! i"
  shows "split_on CHR ''.'' (subjectFor (fst (bridge_run env delay inps (bridge_init e)) ! i)) =
      [''pve'', safe (en_Cluster e), safe (en_Node e), tev_Kind ev, show_int (VMID (tev_UPID ev)),
       tev_Action ev, tev_Phase ev] \<and>
    list_all nats_token (split_on CHR ''.'' (subjectFor (fst (bridge_run env delay inps (bridge_init e)) ! i)))"
proof -
  have "i < length (sy_out s)" using assms(2,3) by (metis length_map)
  then have ok: "ev_ok inc ev" using watcher_out [OF assms(1)] assms(4) by (auto simp: list_all_length)
  obtain uid now where "inps ! i = (ev, uid, now)"
    using assms(2,3,4) by (metis eq_fst_iff nth_map)
  then have "subjectFor (fst (bridge_run env delay inps (bridge_init e)) ! i) =
      SubjectLifecycle (en_Cluster e) (en_Node e) (tev_Kind ev) (VMID (tev_UPID ev)) (tev_Action ev) (tev_Phase ev)"
    using bridge_run_nth [OF assms(3)] bridge_subject [OF ok] bridge_run_keeps by (simp add: bridge_init_def)
  then show ?thesis using lifecycle_tokens [OF ev_ok_tokens(1,2,3) [OF ok]] by simp
qed

lemma lifecycle_published_witness:
  "length (split_on CHR ''.'' (subjectFor (fst (bridge_run (\<lambda>_. fs_of []) (\<lambda>_. 0)
     [(started_ev, ''a'', 10), (finished_ev, ''b'', 20)] (bridge_init sample_enricher)) ! 1))) = 7"
proof -
  let ?inps = "[(started_ev, ''a'', 10), (finished_ev, ''b'', 20)]"
  have "map fst ?inps = sy_out received" by (simp add: received_out)
  from lifecycle_published [OF reach_received this _ refl, of 1 "\<lambda>_. fs_of []" "\<lambda>_. 0" sample_enricher]
  show ?thesis by (simp del: bridge_run.simps)
qed

text \<open>C28: Every event of a snapshot batch is published either as the completion of the batch on
  the daemon's snapshot subject, or under the seven tokens of a state report of one VM, again
  with tokens that NATS accepts.\<close>

theorem snapshot_published:
  assumes "ev \<in> set (batch_events e w0 ws)"
  shows "split_on CHR ''.'' (subjectFor ev) =
      (if ce_Type ev = TypeSnapshotComplete
       then [''pve'', safe (em_Cluster e), safe (em_Node e), ''snapshot'', ''complete'']
       else [''pve'', safe (em_Cluster e), safe (em_Node e), ed_Kind (ce_Data ev),
             show_int (ed_VMID (ce_Data ev)), ActionState, PhaseSnapshot]) \<and>
    list_all nats_token (split_on CHR ''.'' (subjectFor ev))"
proof -
  have report: "ce_Type ev \<noteq> TypeSnapshotComplete \<and>
      split_on CHR ''.'' (subjectFor ev) = [''pve'', safe (em_Cluster e), safe (em_Node e), ed_Kind (ce_Data ev),
             show_int (ed_VMID (ce_Data ev)), ActionState, PhaseSnapshot] \<and>
      list_all nats_token (split_on CHR ''.'' (subjectFor ev))"
    if "ev = snapshotEvent w e k v st dt sid" "k \<in> {KindQEMU, KindLXC}" for w k v st dt sid
  proof -
    have "nats_token k" using that(2) phase_tokens by auto
    then show ?thesis
      using lifecycle_type [of k ActionState PhaseSnapshot] lifecycle_tokens [of k ActionState PhaseSnapshot]
        phase_tokens that(1) by (simp add: subjectFor_def Let_def snapshotEvent_data)
  qed
  consider (complete) w sid n where "ev = completeEvent w e sid n"
    | (state) w k v st dt sid where "ev = snapshotEvent w e k v st dt sid" "k \<in> {KindQEMU, KindLXC}"
    using assms
    by (fastforce simp: batch_events_def qemu_event_def lxc_event_def split: sum.splits prod.splits)
  then show ?thesis
  proof cases
    case complete
    then have "subjectFor ev = SubjectSnapshotComplete (em_Cluster e) (em_Node e)" "ce_Type ev = TypeSnapshotComplete"
      by (simp_all add: subjectFor_def completeEvent_def New_def)
    then show ?thesis by (simp add: SubjectSnapshotComplete_tokens safe_token pve_token)
  next
    case state
    note r = report [OF state]
    show ?thesis unfolding if_not_P [OF conjunct1 [OF r]] using r by blast
  qed
qed

lemma snapshot_published_witness:
  "length (split_on CHR ''.'' (subjectFor (batch_events sample_emitter sample_world (\<lambda>_. sample_world) ! 0))) = 7"
proof -
  let ?es = "batch_events sample_emitter sample_world (\<lambda>_. sample_world)"
  have es: "?es ! 0 \<in> set ?es" "ce_Type (?es ! 0) \<noteq> TypeSnapshotComplete"
    using lifecycle_type [OF phase_tokens(7,6,5)]
    by (simp_all add: batch_events_def sample_list qemu_event_def split_beta snapshotEvent_data)
  show ?thesis using snapshot_published [OF es(1)] es(2) by simp
qed

section \<open>Properties of the start\<close>

text \<open>A reader that holds nothing answers with what the file says.\<close>

lemma Members_fresh_reader:
  assumes "rd_members rd = None"
  shows "case members_at unmarshal fs (rd_root rd) of
      None \<Rightarrow> \<exists>err. Members unmarshal fs now now rd = (Inl err, rd)
    | Some m \<Rightarrow> \<exists>rd'. Members unmarshal fs now now rd = (Inr m, rd')"
  using assms by (simp add: Members_def reloadMembers_def members_at_def split: sum.split option.split)

text \<open>What an attempt of the detection may see: the cluster's name in the membership file, \<open>None\<close> if
  it cannot be read or decoded.\<close>

definition name_at :: "(string \<Rightarrow> members option) \<Rightarrow> fs \<Rightarrow> reader \<Rightarrow> string option" where
  "name_at unmarshal fs rd = map_option (\<lambda>m. trim_space (ci_Name (mb_Cluster m))) (members_at unmarshal fs (rd_root rd))"

lemma detect_loop_first:
  assumes "rd_members rd = None"
  shows "\<exists>name rd' i. detect_loop unmarshal env (Suc left) now rd = (name, rd', now + int i * retryDelay) \<and> i \<le> left \<and>
    (\<forall>j < i. name_at unmarshal (env (now + int j * retryDelay)) rd = None) \<and>
    (case name_at unmarshal (env (now + int i * retryDelay)) rd of
       Some n \<Rightarrow> name = n | None \<Rightarrow> i = left \<and> name = [] \<and> rd' = rd)"
proof (induction left arbitrary: now)
  case 0
  show ?case
    using Members_fresh_reader [OF assms, of unmarshal "env now" now]
    by (cases "members_at unmarshal (env now) (rd_root rd)") (auto simp: name_at_def)
next
  case (Suc left)
  show ?case
  proof (cases "members_at unmarshal (env now) (rd_root rd)")
    case None
    obtain name rd' i where t: "detect_loop unmarshal env (Suc left) (now + retryDelay) rd =
        (name, rd', now + retryDelay + int i * retryDelay)" "i \<le> left"
      "\<forall>j < i. name_at unmarshal (env (now + retryDelay + int j * retryDelay)) rd = None"
      "case name_at unmarshal (env (now + retryDelay + int i * retryDelay)) rd of
         Some n \<Rightarrow> name = n | None \<Rightarrow> i = left \<and> name = [] \<and> rd' = rd"
      using Suc.IH [of "now + retryDelay"] by blast
    have at: "now + int (Suc j) * retryDelay = now + retryDelay + int j * retryDelay" for j
      by (simp add: algebra_simps)
    obtain err where "Members unmarshal (env now) now now rd = (Inl err, rd)"
      using Members_fresh_reader [OF assms, of unmarshal "env now" now] None by auto
    then have "detect_loop unmarshal env (Suc (Suc left)) now rd = (name, rd', now + int (Suc i) * retryDelay)"
      using t(1) unfolding at by simp
    moreover have "\<forall>j < Suc i. name_at unmarshal (env (now + int j * retryDelay)) rd = None"
      using t(3) None unfolding All_less_Suc2 at by (simp add: name_at_def)
    moreover have "case name_at unmarshal (env (now + int (Suc i) * retryDelay)) rd of
        Some n \<Rightarrow> name = n | None \<Rightarrow> Suc i = Suc left \<and> name = [] \<and> rd' = rd"
      using t(4) unfolding at by (simp split: option.splits)
    ultimately show ?thesis using t(2) by (intro exI conjI) (assumption | simp)+
  next
    case (Some m)
    then show ?thesis
      using Members_fresh_reader [OF assms, of unmarshal "env now" now]
      by (auto simp: name_at_def intro!: exI [of _ 0])
  qed
qed

text \<open>C17: A daemon that starts before the cluster file system is there still finds its cluster. It
  looks at the membership file every 250 ms, and takes the name in it the first time that it
  can be read and decoded; whatever happens to the file, it looks at most twenty times, so that
  the detection takes at most nineteen delays (reading takes no time here), and it gives up with no name only if all twenty
  attempts fail.\<close>

theorem cluster_detected:
  "\<exists>name rd' i. detectClusterName unmarshal env now (Reader_New root) = (name, rd', now + int i * 250000000) \<and> i < 20 \<and>
     (\<forall>j < i. name_at unmarshal (env (now + int j * 250000000)) (Reader_New root) = None) \<and>
     (case name_at unmarshal (env (now + int i * 250000000)) (Reader_New root) of
        Some n \<Rightarrow> name = n | None \<Rightarrow> i = 19 \<and> name = [])"
proof -
  have "maxAttempts = Suc 19" "retryDelay = 250000000" "rd_members (Reader_New root) = None"
    by (simp_all add: maxAttempts_def retryDelay_def Reader_New_def)
  with detect_loop_first [OF this(3), of unmarshal env 19 now] show ?thesis
    unfolding detectClusterName_def by (fastforce split: option.splits)
qed

text \<open>A file system that is there after 0.6 seconds: the fourth attempt finds the name.\<close>

lemma cluster_detected_witness:
  "\<exists>rd'. detectClusterName (\<lambda>_. Some sample_members)
     (\<lambda>t. if t < 600000000 then fs_of [] else fs_of [(''/etc/pve/.members'', RegFile (Inr []))]) 0
     (Reader_New []) = (''lab'', rd', 750000000)"
proof -
  let ?env = "\<lambda>t::int. if t < 600000000 then fs_of [] else fs_of [(''/etc/pve/.members'', RegFile (Inr []))]"
  have p: "path_join [''/etc/pve'', MembersFile] = ''/etc/pve/.members''"
    by (simp add: path_join_def path_clean_def MembersFile_def str_simps)
  have m: "name_at (\<lambda>_. Some sample_members) (?env t) (Reader_New []) = (if t < 600000000 then None else Some ''lab'')" for t
    by (simp add: name_at_def members_at_def Reader_New_def p read_file_def fopen_def)
      (simp add: fs_of_def sample_members_def str_simps)
  obtain name rd' i where d: "detectClusterName (\<lambda>_. Some sample_members) ?env 0 (Reader_New []) =
      (name, rd', 0 + int i * 250000000)" "i < 20"
    "\<forall>j < i. name_at (\<lambda>_. Some sample_members) (?env (0 + int j * 250000000)) (Reader_New []) = None"
    "case name_at (\<lambda>_. Some sample_members) (?env (0 + int i * 250000000)) (Reader_New []) of
       Some n \<Rightarrow> name = n | None \<Rightarrow> i = 19 \<and> name = []"
    using cluster_detected [of "\<lambda>_. Some sample_members" ?env 0 "[]"] by blast
  have "\<not> 3 < i" using d(3) unfolding m by auto
  moreover have "3 \<le> i" using d(4) unfolding m by (auto split: if_splits)
  ultimately have "i = 3" by simp
  then show ?thesis using d(1,4) unfolding m by simp
qed

text \<open>The stages of a successful start.\<close>

lemma daemon_start_Inr:
  assumes "daemon_start out env now path = Inr d"
  shows "\<exists>cfg fs cluster node clientAdv clusterAdv l rd server.
    Load (ou_decode out) (env now) path = (cfg, None) \<and>
    NewLoader (ou_pool_of out) (ou_pair_of out) fs (tc_CAFile (na_TLS (cf_NATS cfg)))
      (tc_CertFile (na_TLS (cf_NATS cfg))) (tc_KeyFile (na_TLS (cf_NATS cfg)))
      (tc_VerifyClient (na_TLS (cf_NATS cfg))) = Inr l \<and>
    Bus_Start (ou_url_of out) (ou_nats out) (Bus_New (daemon_bus cfg node clientAdv clusterAdv l rd)) = (None, server) \<and>
    cluster \<noteq> [] \<and>
    d = \<lparr>dm_config = cfg, dm_loader = l, dm_server = server, dm_enricher = daemon_enricher cfg cluster node rd,
         dm_include = wc_Include (cf_Watch cfg),
         dm_emitter = (if sc_Enabled (cf_Snapshot cfg) then Some (daemon_emitter cfg cluster node rd) else None),
         dm_requests = (if sc_Enabled (cf_Snapshot cfg)
            then [SubjectSnapshotRequestCluster cluster, SubjectSnapshotRequestNode cluster node] else [])\<rparr>"
proof -
  obtain cfg err where L: "Load (ou_decode out) (env now) path = (cfg, err)"
    by (cases "Load (ou_decode out) (env now) path")
  have err: "err = None" using assms by (cases err) (auto simp: daemon_start_def L)
  obtain detected rd1 t where D: "detectClusterName (ou_unmarshal out) env now
      (Reader_New (nc_PmxcfsRoot (cf_Node cfg))) = (detected, rd1, t)"
    using prod_cases3 by blast
  obtain node rd2 where N: "node_name (ou_unmarshal out) (env t) t (ou_hostname out) cfg rd1 = (node, rd2)"
    by (cases "node_name (ou_unmarshal out) (env t) t (ou_hostname out) cfg rd1")
  obtain clientAdv clusterAdv rd where A: "resolveAdvertise (ou_unmarshal out) (env t) t cfg rd2 = (clientAdv, clusterAdv, rd)"
    using prod_cases3 by blast
  let ?tls = "na_TLS (cf_NATS cfg)"
  obtain l where T: "NewLoader (ou_pool_of out) (ou_pair_of out) (env t)
      (tc_CAFile ?tls) (tc_CertFile ?tls) (tc_KeyFile ?tls) (tc_VerifyClient ?tls) = Inr l"
    using assms by (auto simp: daemon_start_def L err D N Let_def split: sum.splits)
  let ?bus = "daemon_bus cfg node clientAdv clusterAdv l rd"
  obtain server where B: "Bus_Start (ou_url_of out) (ou_nats out) (Bus_New ?bus) = (None, server)"
    using assms by (auto simp: daemon_start_def L err D N A T Let_def split: prod.splits option.splits)
  have "cluster_name cfg detected \<noteq> []" by (simp add: cluster_name_def Let_def)
  then show ?thesis
    using assms L T B by (fastforce simp: daemon_start_def err D N A Let_def)
qed

lemma Bus_Start_None:
  assumes "Bus_Start url_of w (Bus_New o1) = (None, server)"
  shows "server = \<lparr>sv_opts = o1, sv_ns = Live, sv_conn = Live, sv_natsOpts = Some (start_options url_of o1),
      sv_routes = (bo_Reader o1 \<noteq> None)\<rparr>"
  using assms by (auto simp: Bus_Start_def Bus_New_def Let_def split: if_splits)

lemma Load_None_valid: "Load decode fs path = (cfg, None) \<Longrightarrow> valid_config cfg"
  using Defaults_valid
  by (auto simp: Load_def Let_def Validate_None split: if_splits sum.splits prod.splits option.splits)

text \<open>A host with the default configuration, its certificates and a readable membership file.\<close>

definition sample_host :: fs where
  "sample_host = fs_of [(''/etc/pve/.members'', RegFile (Inr [])), (''/etc/pve/pve-root-ca.pem'', RegFile (Inr ''pem''))]"

definition sample_outside :: "(string, unit, unit) outside" where
  "sample_outside =
     \<lparr>ou_decode = (\<lambda>c _. (c, False)), ou_unmarshal = (\<lambda>_. Some sample_members), ou_hostname = ''host'',
      ou_pool_of = (\<lambda>_. Some ()), ou_pair_of = (\<lambda>_ _ _. Some ()), ou_url_of = Some,
      ou_nats = \<lparr>nw_new = (\<lambda>_. True), nw_ready = True, nw_connect = True\<rparr>\<rparr>"

lemma sample_daemon: "\<exists>d. daemon_start sample_outside (\<lambda>_. sample_host) 0 [] = Inr d"
proof -
  have ca: "read_file sample_host ''/etc/pve/pve-root-ca.pem'' = Inr ''pem''"
    by (simp add: sample_host_def read_file_def fopen_def) (simp add: fs_of_def)
  show ?thesis
    by (simp add: daemon_start_def Load_def Defaults_def Let_def split_beta NewLoader_def Reload_def ca
        Bus_Start_def Bus_New_def sample_outside_def daemon_bus_def)
qed



text \<open>C23: The components of a started daemon speak as one node: its configuration is valid, the
  lifecycle events and the snapshots carry the same cluster and node, the cluster name is never
  empty, and the snapshot requests it answers are those for its own cluster and node (none if
  snapshots are off). Every event that can be encoded is handed to the open connection under its
  subject, and publishing fails exactly if the encoding or the connection does.\<close>

theorem daemon_consistent:
  assumes "daemon_start out env now path = Inr d"
  shows "valid_config (dm_config d) \<and> en_Cluster (dm_enricher d) \<noteq> [] \<and>
    (case dm_emitter d of
       None \<Rightarrow> dm_requests d = []
     | Some e \<Rightarrow> em_Cluster e = en_Cluster (dm_enricher d) \<and> em_Node e = en_Node (dm_enricher d) \<and>
         em_Reader e = en_Reader (dm_enricher d) \<and>
         dm_requests d = [SubjectSnapshotRequestCluster (em_Cluster e),
           SubjectSnapshotRequestNode (em_Cluster e) (em_Node e)]) \<and>
    publish_step marshal publish (dm_server d) ev =
      (case marshal ev of
         None \<Rightarrow> Inl Marshal
       | Some b \<Rightarrow>
           (case publish Live (subjectFor ev) b of None \<Rightarrow> Inr (subjectFor ev, b) | Some e \<Rightarrow> Inl (PublishErr e)))"
proof -
  obtain cfg fs cluster node clientAdv clusterAdv l rd server where
    L: "Load (ou_decode out) (env now) path = (cfg, None)" and c: "cluster \<noteq> []" and
    b: "Bus_Start (ou_url_of out) (ou_nats out) (Bus_New (daemon_bus cfg node clientAdv clusterAdv l rd)) = (None, server)" and
    d: "dm_config d = cfg" "dm_server d = server" "dm_enricher d = daemon_enricher cfg cluster node rd"
      "dm_emitter d = (if sc_Enabled (cf_Snapshot cfg) then Some (daemon_emitter cfg cluster node rd) else None)"
      "dm_requests d = (if sc_Enabled (cf_Snapshot cfg)
         then [SubjectSnapshotRequestCluster cluster, SubjectSnapshotRequestNode cluster node] else [])"
    using daemon_start_Inr [OF assms] by auto
  show ?thesis
    using Load_None_valid [OF L] c
    by (simp add: d daemon_enricher_def daemon_emitter_def publish_step_def PublishJSON_def Bus_Start_None [OF b]
        split: option.split)
qed

lemma daemon_consistent_witness:
  "\<exists>d. daemon_start sample_outside (\<lambda>_. sample_host) 0 [] = Inr d \<and>
     (\<forall>ev. publish_step (\<lambda>_. Some ''{}'') (\<lambda>h _ _. if h = Live then None else Some ()) (dm_server d) ev =
        Inr (subjectFor ev, ''{}''))"
proof -
  obtain d where d: "daemon_start sample_outside (\<lambda>_. sample_host) 0 [] = Inr d" using sample_daemon by blast
  then show ?thesis using daemon_consistent [OF d, of "\<lambda>_. Some ''{}''" "\<lambda>h _ _. if h = Live then None else Some ()"] by simp
qed

end
