(* ===== verification/Codec.thy ===== *)
theory Codec
  imports Events Json
begin

text \<open>
  The wire form of an event: what \<open>json.Marshal\<close> makes of a \<open>CloudEvent\<close> by the tags of its
  struct (\<open>internal/events/events.go\<close>): the names, the order, and the fields that are omitted
  when they are empty. Strings go through Go's replacement of invalid UTF-8; \<open>fmt_time\<close> is the
  RFC 3339 form of a time.
\<close>

section \<open>Valid UTF-8\<close>

abbreviation cont :: "char \<Rightarrow> bool" where
  "cont c \<equiv> char_range CHR 0x80 CHR 0xBF c"

text \<open>The length of the encoded rune at the head of a string; 0 if there is none.\<close>

definition second_byte :: "char \<Rightarrow> char \<Rightarrow> bool" where
  "second_byte c d \<longleftrightarrow>
     (if c = CHR 0xE0 then char_range CHR 0xA0 CHR 0xBF d
      else if c = CHR 0xED then char_range CHR 0x80 CHR 0x9F d
      else if c = CHR 0xF0 then char_range CHR 0x90 CHR 0xBF d
      else if c = CHR 0xF4 then char_range CHR 0x80 CHR 0x8F d
      else cont d)"

fun rune_len :: "string \<Rightarrow> nat" where
  "rune_len [] = 0"
| "rune_len (c # s) =
     (if c < CHR 0x80 then 1
      else if char_range CHR 0xC2 CHR 0xDF c then
        (case s of d # _ \<Rightarrow> if cont d then 2 else 0 | [] \<Rightarrow> 0)
      else if char_range CHR 0xE0 CHR 0xEF c then
        (case s of d # e # _ \<Rightarrow> if second_byte c d \<and> cont e then 3 else 0 | _ \<Rightarrow> 0)
      else if char_range CHR 0xF0 CHR 0xF4 c then
        (case s of d # e # f # _ \<Rightarrow> if second_byte c d \<and> cont e \<and> cont f then 4 else 0 | _ \<Rightarrow> 0)
      else 0)"

text \<open>Each byte that starts no rune becomes the replacement character.\<close>

function to_valid :: "string \<Rightarrow> string" where
  "to_valid [] = []"
| "to_valid (c # s) =
     (let n = rune_len (c # s)
      in if n = 0 then [CHR 0xEF, CHR 0xBF, CHR 0xBD] @ to_valid s
         else take n (c # s) @ to_valid (drop n (c # s)))"
  by pat_completeness auto
termination
  by (relation "measure length") auto

declare to_valid.simps(2) [simp del]

lemma to_valid_ascii: "list_all (\<lambda>c. c < CHR 0x80) s \<Longrightarrow> to_valid s = s"
  by (induction s) (simp_all add: to_valid.simps(2))

lemma to_valid_Nil [simp]: "to_valid s = [] \<longleftrightarrow> s = []"
proof (cases s)
  case (Cons c t)
  then show ?thesis by (cases "rune_len (c # t)") (simp_all add: to_valid.simps(2) Let_def)
qed simp

section \<open>Encoding\<close>

definition str_field :: "string \<Rightarrow> string \<Rightarrow> (string \<times> json) list" where
  "str_field name v = [(name, JStr (to_valid v))]"

definition omit_str :: "string \<Rightarrow> string \<Rightarrow> (string \<times> json) list" where
  "omit_str name v = (if v = [] then [] else str_field name v)"

definition omit_int :: "string \<Rightarrow> int \<Rightarrow> (string \<times> json) list" where
  "omit_int name v = (if v = 0 then [] else [(name, JNum (show_int v))])"

definition omit_ptr :: "string \<Rightarrow> int option \<Rightarrow> (string \<times> json) list" where
  "omit_ptr name v = (case v of None \<Rightarrow> [] | Some i \<Rightarrow> [(name, JNum (show_int i))])"

definition omit_strs :: "string \<Rightarrow> string list \<Rightarrow> (string \<times> json) list" where
  "omit_strs name vs = (if vs = [] then [] else [(name, JArr (map (\<lambda>v. JStr (to_valid v)) vs))])"

definition data_fields :: "event_data \<Rightarrow> (string \<times> json) list" where
  "data_fields d =
     str_field ''schemaVersion'' (ed_SchemaVersion d) @ str_field ''cluster'' (ed_Cluster d) @
     str_field ''node'' (ed_Node d) @ omit_str ''kind'' (ed_Kind d) @ omit_int ''vmid'' (ed_VMID d) @
     omit_str ''name'' (ed_Name d) @ omit_strs ''tags'' (ed_Tags d) @
     omit_str ''description'' (ed_Description d) @ omit_str ''hookscript'' (ed_HookScript d) @
     omit_str ''action'' (ed_Action d) @ omit_str ''phase'' (ed_Phase d) @ omit_str ''upid'' (ed_UPID d) @
     omit_str ''user'' (ed_User d) @ omit_str ''source_node'' (ed_SourceNode d) @
     omit_str ''target_node'' (ed_TargetNode d) @ omit_ptr ''duration_ms'' (ed_DurationMS d) @
     omit_str ''exit_status'' (ed_ExitStatus d) @ omit_str ''state'' (ed_State d) @
     omit_str ''state_detail'' (ed_StateDetail d) @ omit_str ''snapshot_id'' (ed_SnapshotID d) @
     omit_int ''observed_at_ns'' (ed_ObservedAtNS d) @ omit_int ''count'' (ed_SnapshotCount d)"

definition event_json :: "(time \<Rightarrow> string) \<Rightarrow> cloud_event \<Rightarrow> json" where
  "event_json fmt_time ev =
     JObj (str_field ''specversion'' (ce_SpecVersion ev) @ str_field ''id'' (ce_ID ev) @
       str_field ''source'' (ce_Source ev) @ str_field ''type'' (ce_Type ev) @
       omit_str ''subject'' (ce_Subject ev) @ [(''time'', JStr (fmt_time (ce_Time ev)))] @
       str_field ''datacontenttype'' (ce_DataContentType ev) @ [(''data'', JObj (data_fields (ce_Data ev)))])"

section \<open>Reading the fields back\<close>

lemma field_values_str [simp]:
  "field_values (str_field k v) name = (if fold_name k = name then [JStr (to_valid v)] else [])"
  "field_values (omit_str k v) name = (if fold_name k = name \<and> v \<noteq> [] then [JStr (to_valid v)] else [])"
  "field_values (omit_int k i) name = (if fold_name k = name \<and> i \<noteq> 0 then [JNum (show_int i)] else [])"
  "field_values (omit_ptr k p) name =
     (if fold_name k = name then (case p of None \<Rightarrow> [] | Some i \<Rightarrow> [JNum (show_int i)]) else [])"
  "field_values (omit_strs k vs) name =
     (if fold_name k = name \<and> vs \<noteq> [] then [JArr (map (\<lambda>v. JStr (to_valid v)) vs)] else [])"
  by (simp_all add: str_field_def omit_str_def omit_int_def omit_ptr_def omit_strs_def split: option.split)

end
