(* ===== verification/Tail.thy ===== *)
theory Tail
  imports Codec Daemon
begin

text \<open>
  The \<open>tail\<close> command (\<open>cmd/proxmox-eventbus/tail.go\<close>): what it decodes of a message, and the
  line it prints. The JSON text is decoded by \<open>decode\<close>, which is an argument, as are the form of
  a time of day (\<open>clock\<close>), the quoting of \<open>%q\<close> (\<open>quote\<close>), the RFC 3339 parser (\<open>parse_time\<close>) and
  \<open>compact\<close>, the source text of a decoded value without its white space.
\<close>

section \<open>Decoding\<close>

record tail_data =
  td_Action :: string
  td_Phase :: string
  td_State :: string
  td_StateDetail :: string
  td_VMID :: int
  td_Name :: string
  td_Tags :: "string list"
  td_SourceNode :: string
  td_TargetNode :: string
  td_DurationMS :: "int option"
  td_ExitStatus :: string
  td_SnapshotCount :: int

text \<open>Errors of this decoding are ignored: the fields that fit are set.\<close>

definition read_data :: "json option \<Rightarrow> tail_data" where
  "read_data j =
     (let kvs = (case j of Some (JObj kvs) \<Rightarrow> kvs | _ \<Rightarrow> []);
          str = (\<lambda>name. fst (read_field store_string [] kvs name));
          num = (\<lambda>name. fst (read_field store_int 0 kvs name))
      in \<lparr>td_Action = str ''action'', td_Phase = str ''phase'', td_State = str ''state'',
          td_StateDetail = str ''state_detail'', td_VMID = num ''vmid'', td_Name = str ''name'',
          td_Tags = fst (read_field store_strings [] kvs ''tags''),
          td_SourceNode = str ''source_node'', td_TargetNode = str ''target_node'',
          td_DurationMS = fst (read_field store_int_ptr None kvs ''duration_ms''),
          td_ExitStatus = str ''exit_status'', td_SnapshotCount = num ''count''\<rparr>)"

definition store_time :: "(string \<Rightarrow> time option) \<Rightarrow> json \<Rightarrow> time \<Rightarrow> time \<times> bool" where
  "store_time parse_time j old =
     (case j of
        JNull \<Rightarrow> (old, True)
      | JStr s \<Rightarrow> (case parse_time s of None \<Rightarrow> (old, False) | Some t \<Rightarrow> (t, True))
      | _ \<Rightarrow> (old, False))"

definition store_raw :: "json \<Rightarrow> json option \<Rightarrow> json option \<times> bool" where
  "store_raw j old = (Some j, True)"

definition read_envelope :: "(string \<Rightarrow> time option) \<Rightarrow> json \<Rightarrow> (string \<times> time \<times> json option) option" where
  "read_envelope parse_time j =
     (case j of
        JNull \<Rightarrow> Some ([], 0, None)
      | JObj kvs \<Rightarrow>
          let (typ, ok1) = read_field store_string [] kvs ''type'';
              (t, ok2) = read_field (store_time parse_time) 0 kvs ''time'';
              (data, _) = read_field store_raw None kvs ''data''
          in if ok1 \<and> ok2 then Some (typ, t, data) else None
      | _ \<Rightarrow> None)"

section \<open>The line\<close>

definition tags_part :: "string list \<Rightarrow> string" where
  "tags_part tags = (if tags = [] then [] else ''  tags='' @ join '','' tags)"

definition vm_part :: "tail_data \<Rightarrow> string" where
  "vm_part d = ''  vm='' @ show_int (td_VMID d) @ (if td_Name d \<noteq> [] then ''('' @ td_Name d @ '')'' else [])"

definition state_part :: "tail_data \<Rightarrow> string" where
  "state_part d =
     vm_part d @
     (if td_State d \<noteq> [] then ''  state='' @ td_State d else []) @
     (if td_StateDetail d \<noteq> [] then '' ('' @ td_StateDetail d @ '')'' else []) @
     tags_part (td_Tags d)"

definition nodes_part :: "tail_data \<Rightarrow> string" where
  "nodes_part d =
     (if td_SourceNode d \<noteq> [] \<and> td_SourceNode d \<noteq> td_TargetNode d
      then ''  '' @ td_SourceNode d @ ''->'' @ td_TargetNode d
      else if td_TargetNode d \<noteq> [] then ''  ->'' @ td_TargetNode d else [])"

definition end_part :: "(string \<Rightarrow> string) \<Rightarrow> tail_data \<Rightarrow> string" where
  "end_part quote d =
     (case td_DurationMS d of None \<Rightarrow> [] | Some ms \<Rightarrow> ''  took='' @ show_int ms @ ''ms'') @
     (if td_ExitStatus d \<noteq> [] \<and> td_ExitStatus d \<noteq> ''OK'' then ''  exit='' @ quote (td_ExitStatus d) else []) @
     tags_part (td_Tags d)"

definition lifecycle_part :: "(string \<Rightarrow> string) \<Rightarrow> tail_data \<Rightarrow> string" where
  "lifecycle_part quote d =
     (if td_VMID d \<noteq> 0 then vm_part d else []) @
     (if td_Action d \<noteq> [] then ''  '' @ td_Action d @ ''/'' @ td_Phase d else []) @
     nodes_part d @ end_part quote d"

definition summary :: "(string \<Rightarrow> string) \<Rightarrow> string \<Rightarrow> tail_data \<Rightarrow> string" where
  "summary quote typ d =
     (if has_suffix typ ''.snapshot.complete'' then ''  batch='' @ show_int (td_SnapshotCount d)
      else if td_Action d = ''state'' \<and> td_Phase d = ''snapshot'' then state_part d
      else lifecycle_part quote d)"

record tail_env =
  te_decode :: "string \<Rightarrow> json option"
  te_parse_time :: "string \<Rightarrow> time option"
  te_clock :: "time \<Rightarrow> string"
  te_quote :: "string \<Rightarrow> string"
  te_compact :: "json \<Rightarrow> string option"

text \<open>The line for a message, received at \<open>now\<close>.\<close>

definition printSummary :: "tail_env \<Rightarrow> time \<Rightarrow> bool \<Rightarrow> string \<Rightarrow> string \<Rightarrow> string" where
  "printSummary te now withData subject msg =
     (case Option.bind (te_decode te msg) (read_envelope (te_parse_time te)) of
        None \<Rightarrow> te_clock te now @ ''  '' @ subject @ ''  (unparsed) '' @ msg @ [CHR 0x0A]
      | Some (typ, t, data) \<Rightarrow>
          te_clock te t @ ''  '' @ subject @ summary (te_quote te) typ (read_data data) @
          (if withData then (case Option.bind data (te_compact te) of None \<Rightarrow> [] | Some b \<Rightarrow> ''  data='' @ b)
           else []) @ [CHR 0x0A])"

definition makeHandler :: "tail_env \<Rightarrow> bool \<Rightarrow> bool \<Rightarrow> time \<Rightarrow> string \<Rightarrow> string \<Rightarrow> string" where
  "makeHandler te jsonMode withData now subject msg =
     (if jsonMode then msg @ [CHR 0x0A] else printSummary te now withData subject msg)"

section \<open>What is read of the daemon's events\<close>

text \<open>The fields of an event as the command sees them, without the detour over JSON.\<close>

definition tail_of :: "event_data \<Rightarrow> tail_data" where
  "tail_of d =
     \<lparr>td_Action = to_valid (ed_Action d), td_Phase = to_valid (ed_Phase d), td_State = to_valid (ed_State d),
      td_StateDetail = to_valid (ed_StateDetail d), td_VMID = ed_VMID d, td_Name = to_valid (ed_Name d),
      td_Tags = map to_valid (ed_Tags d), td_SourceNode = to_valid (ed_SourceNode d),
      td_TargetNode = to_valid (ed_TargetNode d), td_DurationMS = ed_DurationMS d,
      td_ExitStatus = to_valid (ed_ExitStatus d), td_SnapshotCount = ed_SnapshotCount d\<rparr>"

text \<open>The integers of Go's event have 64 bits.\<close>

definition data_int64 :: "event_data \<Rightarrow> bool" where
  "data_int64 d \<longleftrightarrow>
     int64 (ed_VMID d) \<and> int64 (ed_SnapshotCount d) \<and> pred_option int64 (ed_DurationMS d)"

lemma store_int_show: "int64 i \<Longrightarrow> store_int (JNum (show_int i)) old = (i, True)"
  using atoi_show_int [of i] by (auto simp: store_int_def atoi_def split: sum.splits)

lemma store_strings_map: "store_strings (JArr (map (\<lambda>v. JStr (f v)) vs)) [] = (map f vs, True)"
proof -
  have "store_elems (map (\<lambda>v. JStr (f v)) vs) [] = (map f vs, True)"
    by (induction vs) (simp_all add: store_string_def)
  then show ?thesis by (simp add: store_strings_def)
qed

lemma fold_names:
  "fold_name ''schemaVersion'' = ''schemaversion''" "fold_name ''cluster'' = ''cluster''" "fold_name ''node'' = ''node''"
  "fold_name ''kind'' = ''kind''" "fold_name ''vmid'' = ''vmid''" "fold_name ''name'' = ''name''"
  "fold_name ''tags'' = ''tags''" "fold_name ''description'' = ''description''"
  "fold_name ''hookscript'' = ''hookscript''" "fold_name ''action'' = ''action''" "fold_name ''phase'' = ''phase''"
  "fold_name ''upid'' = ''upid''" "fold_name ''user'' = ''user''" "fold_name ''source_node'' = ''source_node''"
  "fold_name ''target_node'' = ''target_node''" "fold_name ''duration_ms'' = ''duration_ms''"
  "fold_name ''exit_status'' = ''exit_status''" "fold_name ''state'' = ''state''"
  "fold_name ''state_detail'' = ''state_detail''" "fold_name ''snapshot_id'' = ''snapshot_id''"
  "fold_name ''observed_at_ns'' = ''observed_at_ns''" "fold_name ''count'' = ''count''"
  "fold_name ''specversion'' = ''specversion''" "fold_name ''id'' = ''id''" "fold_name ''source'' = ''source''"
  "fold_name ''type'' = ''type''" "fold_name ''subject'' = ''subject''" "fold_name ''time'' = ''time''"
  "fold_name ''datacontenttype'' = ''datacontenttype''" "fold_name ''data'' = ''data''"
  by (simp_all add: lower_char_def less_eq_char_def char_of_def bit_iff_odd_drop_bit drop_bit_eq_div)

lemma read_str: "field_values kvs name = (if v \<noteq> [] then [JStr (to_valid v)] else []) \<Longrightarrow>
    read_field store_string [] kvs name = (to_valid v, True)"
  by (cases "v = []") (simp_all add: read_field_none read_field_once store_string_def)

lemma read_int: "field_values kvs name = (if i \<noteq> 0 then [JNum (show_int i)] else []) \<Longrightarrow> int64 i \<Longrightarrow>
    read_field store_int 0 kvs name = (i, True)"
  by (cases "i = 0") (simp_all add: read_field_none read_field_once store_int_show)

lemma read_ptr: "field_values kvs name = (case v of None \<Rightarrow> [] | Some i \<Rightarrow> [JNum (show_int i)]) \<Longrightarrow>
    pred_option int64 v \<Longrightarrow> read_field store_int_ptr None kvs name = (v, True)"
  by (cases v) (simp_all add: read_field_none read_field_once store_int_ptr_def store_int_show)

lemma read_strs: "field_values kvs name = (if vs \<noteq> [] then [JArr (map (\<lambda>v. JStr (to_valid v)) vs)] else []) \<Longrightarrow>
    read_field store_strings [] kvs name = (map to_valid vs, True)"
  by (cases "vs = []") (simp_all add: read_field_none read_field_once store_strings_map)

lemma data_field_values:
  "field_values (data_fields d) ''action'' = (if ed_Action d \<noteq> [] then [JStr (to_valid (ed_Action d))] else [])"
  "field_values (data_fields d) ''phase'' = (if ed_Phase d \<noteq> [] then [JStr (to_valid (ed_Phase d))] else [])"
  "field_values (data_fields d) ''state'' = (if ed_State d \<noteq> [] then [JStr (to_valid (ed_State d))] else [])"
  "field_values (data_fields d) ''state_detail'' =
     (if ed_StateDetail d \<noteq> [] then [JStr (to_valid (ed_StateDetail d))] else [])"
  "field_values (data_fields d) ''name'' = (if ed_Name d \<noteq> [] then [JStr (to_valid (ed_Name d))] else [])"
  "field_values (data_fields d) ''source_node'' =
     (if ed_SourceNode d \<noteq> [] then [JStr (to_valid (ed_SourceNode d))] else [])"
  "field_values (data_fields d) ''target_node'' =
     (if ed_TargetNode d \<noteq> [] then [JStr (to_valid (ed_TargetNode d))] else [])"
  "field_values (data_fields d) ''exit_status'' =
     (if ed_ExitStatus d \<noteq> [] then [JStr (to_valid (ed_ExitStatus d))] else [])"
  "field_values (data_fields d) ''vmid'' = (if ed_VMID d \<noteq> 0 then [JNum (show_int (ed_VMID d))] else [])"
  "field_values (data_fields d) ''count'' =
     (if ed_SnapshotCount d \<noteq> 0 then [JNum (show_int (ed_SnapshotCount d))] else [])"
  "field_values (data_fields d) ''duration_ms'' =
     (case ed_DurationMS d of None \<Rightarrow> [] | Some i \<Rightarrow> [JNum (show_int i)])"
  "field_values (data_fields d) ''tags'' =
     (if ed_Tags d \<noteq> [] then [JArr (map (\<lambda>v. JStr (to_valid v)) (ed_Tags d))] else [])"
  by (simp_all add: data_fields_def fold_names)

lemma read_data_event: "data_int64 d \<Longrightarrow> read_data (Some (JObj (data_fields d))) = tail_of d"
  unfolding read_data_def tail_of_def data_int64_def Let_def
  by (simp add: read_str [OF data_field_values(1)] read_str [OF data_field_values(2)]
      read_str [OF data_field_values(3)] read_str [OF data_field_values(4)] read_str [OF data_field_values(5)]
      read_str [OF data_field_values(6)] read_str [OF data_field_values(7)] read_str [OF data_field_values(8)]
      read_int [OF data_field_values(9)] read_int [OF data_field_values(10)] read_ptr [OF data_field_values(11)]
      read_strs [OF data_field_values(12)])

lemma read_envelope_event:
  assumes "parse_time (fmt_time (ce_Time ev)) = Some (ce_Time ev)"
  shows "read_envelope parse_time (event_json fmt_time ev) =
    Some (to_valid (ce_Type ev), ce_Time ev, Some (JObj (data_fields (ce_Data ev))))"
  using assms
  by (simp add: read_envelope_def event_json_def fold_names read_field_once store_string_def store_time_def store_raw_def)

section \<open>Properties\<close>

text \<open>C19: What \<open>tail\<close> prints for an event the daemon has published is the summary of that very
  event: the names and the omitted fields of the encoder and of the command's own decoder
  agree, so that every field comes back, those that were left out as their zero values, and
  nothing of the message is reported as unparsed.\<close>

theorem tail_reads_event:
  assumes "te_decode te msg = Some (event_json fmt_time ev)"
    and "te_parse_time te (fmt_time (ce_Time ev)) = Some (ce_Time ev)" and "data_int64 (ce_Data ev)"
  shows "printSummary te now False subject msg =
    te_clock te (ce_Time ev) @ ''  '' @ subject @
    summary (te_quote te) (to_valid (ce_Type ev)) (tail_of (ce_Data ev)) @ [CHR 0x0A]"
  by (simp add: printSummary_def assms(1) read_envelope_event [where parse_time = "te_parse_time te" and fmt_time = fmt_time and ev = ev, OF assms(2)]
      read_data_event [OF assms(3)])

text \<open>An event about the start of a VM.\<close>

definition sample_ce :: cloud_event where
  "sample_ce = New ''id'' 0 (TypeFor KindQEMU ActionStart PhaseStarted) ''s'' ''t''
     (zero_data\<lparr>ed_Kind := KindQEMU, ed_VMID := 100, ed_Action := ActionStart, ed_Phase := PhaseStarted,
        ed_SourceNode := ''pve1'', ed_TargetNode := ''pve2''\<rparr>)"

definition sample_tail :: tail_env where
  "sample_tail =
     \<lparr>te_decode = (\<lambda>_. Some (event_json (\<lambda>_. []) sample_ce)), te_parse_time = (\<lambda>_. Some 0),
      te_clock = (\<lambda>_. ''12:00:00''), te_quote = (\<lambda>s. s), te_compact = (\<lambda>_. None)\<rparr>"

lemma tail_reads_event_witness:
  "printSummary sample_tail 0 False ''pve'' [] = ''12:00:00  pve  vm=100  start/started  pve1->pve2'' @ [CHR 0x0A]"
proof -
  have v: "to_valid ''start'' = ''start''" "to_valid ''started'' = ''started''" "to_valid ''pve1'' = ''pve1''"
    "to_valid ''pve2'' = ''pve2''"
    by (rule to_valid_ascii; simp add: less_char_def)+
  have t: "to_valid (ce_Type sample_ce) = TypeFor KindQEMU ActionStart PhaseStarted"
    by (rule to_valid_ascii [THEN trans])
      (simp_all add: sample_ce_def New_def TypeFor_def TypeNamespace_def kind_defs action_defs phase_defs less_char_def)
  have s: "\<not> has_suffix (TypeFor KindQEMU ActionStart PhaseStarted) ''.snapshot.complete''"
    by (simp add: TypeFor_def TypeNamespace_def kind_defs action_defs phase_defs has_suffix_def)
  have "printSummary sample_tail 0 False ''pve'' [] =
      te_clock sample_tail (ce_Time sample_ce) @ ''  '' @ ''pve'' @
      summary (te_quote sample_tail) (to_valid (ce_Type sample_ce)) (tail_of (ce_Data sample_ce)) @ [CHR 0x0A]"
    by (rule tail_reads_event [where fmt_time = "\<lambda>_. []"])
      (simp_all add: sample_tail_def sample_ce_def New_def data_int64_def int64_def zero_data_def)
  also have "summary (te_quote sample_tail) (to_valid (ce_Type sample_ce)) (tail_of (ce_Data sample_ce)) =
      ''  vm=100  start/started  pve1->pve2''"
    unfolding t
    by (simp add: summary_def s)
      (simp add: lifecycle_part_def vm_part_def nodes_part_def end_part_def tags_part_def tail_of_def sample_ce_def
        New_def zero_data_def action_defs phase_defs v show_int_100)
  finally show ?thesis by (simp add: sample_tail_def)
qed

text \<open>The summary of an event that is not a migration ends its node with an arrow that points
  nowhere: the node is the source of every lifecycle event and the target is empty, which the
  command takes for two different nodes.\<close>

theorem tail_dangling_arrow:
  assumes "tev_Action ev \<noteq> ActionMigrate" and "en_Node (br_enricher br) \<noteq> []"
    and "ce = fst (bridge_step env delay (ev, uid, now) br)"
  shows "\<exists>pre. lifecycle_part quote (tail_of (ce_Data ce)) =
    pre @ ''  '' @ to_valid (en_Node (br_enricher br)) @ ''->'' @ end_part quote (tail_of (ce_Data ce))"
proof -
  have "ed_SourceNode (ce_Data ce) = en_Node (br_enricher br) \<and> ed_TargetNode (ce_Data ce) = []"
    using assms(1,3)
    by (cases "ReadVMConfig (env now) (en_Reader (br_enricher br)) (tev_Kind ev) (VMID (tev_UPID ev))")
      (auto simp: bridge_step_def Lifecycle_def Let_def New_def with_config_def zero_data_def split: if_splits)
  then have "nodes_part (tail_of (ce_Data ce)) = ''  '' @ to_valid (en_Node (br_enricher br)) @ ''->''"
    using assms(2) by (simp add: nodes_part_def tail_of_def)
  then show ?thesis unfolding lifecycle_part_def by auto
qed

lemma tail_dangling_arrow_witness:
  "\<exists>pre. lifecycle_part id (tail_of (ce_Data (fst (bridge_step (\<lambda>_. fs_of []) (\<lambda>_. 0)
     (started_ev\<lparr>tev_Action := ActionStart\<rparr>, ''u'', 5) (bridge_init sample_enricher))))) =
   pre @ ''  '' @ to_valid ''pve1'' @ ''->''"
proof -
  let ?br = "bridge_init sample_enricher" and ?ev = "started_ev\<lparr>tev_Action := ActionStart\<rparr>"
  let ?ce = "fst (bridge_step (\<lambda>_. fs_of []) (\<lambda>_. 0) (?ev, ''u'', 5) ?br)"
  have n: "en_Node (br_enricher ?br) = ''pve1''" by (simp add: bridge_init_def sample_enricher_def)
  have a: "tev_Action ?ev \<noteq> ActionMigrate" by (simp add: action_defs)
  have e: "end_part id (tail_of (ce_Data ?ce)) = []"
    by (simp add: end_part_def tail_of_def tags_part_def bridge_step_def Lifecycle_def Let_def New_def with_config_def
        zero_data_def started_ev_def terminal_def ReadVMConfig_def conf_path_def kind_defs fopen_def fs_of_def action_defs)
  show ?thesis using tail_dangling_arrow [OF a, of ?br ?ce "\<lambda>_. fs_of []" "\<lambda>_. 0" "''u''" 5 id] by (simp add: n e)
qed

end
