(* ===== verification/Issue.thy ===== *)
theory Issue
  imports Tls Logfile "HOL-Library.Word"
begin

text \<open>
  Minting client certificates (\<open>internal/tlsutil/issue.go\<close> and the command
  \<open>cmd/proxmox-eventbus/issue_client_cert.go\<close>): the defaults, the CA files, the template of
  the certificate, and the files written. The cryptography is in the record \<open>issuer\<close>; its
  \<open>is_blocks\<close> are the type and bytes of the blocks that repeated \<open>pem.Decode\<close> finds.
\<close>

unbundle bit_operations_syntax

section \<open>The certificate\<close>

definition DefaultCAcertPath :: string where
  "DefaultCAcertPath = ''/etc/pve/pve-root-ca.pem''"

definition DefaultCAkeyPath :: string where
  "DefaultCAkeyPath = ''/etc/pve/priv/pve-root-ca.key''"

record issue_opts =
  ic_CACertFile :: string
  ic_CAKeyFile :: string
  ic_CN :: string
  ic_OutDir :: string
  ic_Validity :: int
  ic_Orgs :: "string list"

record cert_bundle =
  bd_CAPEM :: string
  bd_CertPEM :: string
  bd_KeyPEM :: string

datatype key_usage = DigitalSignature | KeyEncipherment
datatype ext_key_usage = UsageClientAuth | UsageServerAuth

record template =
  tp_SerialNumber :: nat
  tp_CommonName :: string
  tp_Organization :: "string list"
  tp_NotBefore :: time
  tp_NotAfter :: time
  tp_KeyUsage :: "key_usage set"
  tp_ExtKeyUsage :: "ext_key_usage list"

text \<open>\<open>is_sign\<close> takes the template, the CA's certificate, the new key and the CA's key.\<close>

record ('c, 'k) issuer =
  is_blocks :: "string \<Rightarrow> (string \<times> string) list"
  is_parse_cert :: "string \<Rightarrow> 'c option"
  is_parse_key :: "string \<Rightarrow> string \<Rightarrow> 'k option"
  is_generate :: "'k option"
  is_serial :: "nat option"
  is_sign :: "template \<Rightarrow> 'c \<Rightarrow> 'k \<Rightarrow> 'k \<Rightarrow> string option"
  is_marshal_key :: "'k \<Rightarrow> string option"
  is_encode :: "string \<Rightarrow> string \<Rightarrow> string"

datatype pem_error = PemRead io_error | NoBlock | BadBlock

datatype issue_error =
    CNRequired | LoadCACert pem_error | LoadCAKey pem_error | GenerateKey | Serial | SignCert | MarshalKey
  | ReadCACert io_error | OutDirRequired | Mkdir | WriteFile string

text \<open>The loops over the blocks: the first certificate, the first key of a known type.\<close>

fun first_cert :: "(string \<Rightarrow> 'c option) \<Rightarrow> (string \<times> string) list \<Rightarrow> pem_error + 'c" where
  "first_cert parse [] = Inl NoBlock"
| "first_cert parse ((t, b) # bs) =
     (if t = ''CERTIFICATE'' then (case parse b of None \<Rightarrow> Inl BadBlock | Some c \<Rightarrow> Inr c)
      else first_cert parse bs)"

fun first_key :: "(string \<Rightarrow> string \<Rightarrow> 'k option) \<Rightarrow> (string \<times> string) list \<Rightarrow> pem_error + 'k" where
  "first_key parse [] = Inl NoBlock"
| "first_key parse ((t, b) # bs) =
     (if t \<in> {''RSA PRIVATE KEY'', ''EC PRIVATE KEY'', ''PRIVATE KEY''}
      then (case parse t b of None \<Rightarrow> Inl BadBlock | Some k \<Rightarrow> Inr k)
      else first_key parse bs)"

definition loadPEMCert :: "('c, 'k) issuer \<Rightarrow> fs \<Rightarrow> string \<Rightarrow> pem_error + 'c" where
  "loadPEMCert iss fs path =
     (case read_file fs path of
        Inl e \<Rightarrow> Inl (PemRead e)
      | Inr b \<Rightarrow> first_cert (is_parse_cert iss) (is_blocks iss b))"

definition loadPEMKey :: "('c, 'k) issuer \<Rightarrow> fs \<Rightarrow> string \<Rightarrow> pem_error + 'k" where
  "loadPEMKey iss fs path =
     (case read_file fs path of
        Inl e \<Rightarrow> Inl (PemRead e)
      | Inr b \<Rightarrow> first_key (is_parse_key iss) (is_blocks iss b))"

definition with_defaults :: "issue_opts \<Rightarrow> issue_opts" where
  "with_defaults opts =
     opts\<lparr>ic_CACertFile := (if ic_CACertFile opts = [] then DefaultCAcertPath else ic_CACertFile opts),
          ic_CAKeyFile := (if ic_CAKeyFile opts = [] then DefaultCAkeyPath else ic_CAKeyFile opts),
          ic_Validity := (if ic_Validity opts = 0 then 365 * 24 * 3600 * 1000000000 else ic_Validity opts),
          ic_Orgs := (if ic_Orgs opts = [] then [''proxmox-eventbus client''] else ic_Orgs opts)\<rparr>"

text \<open>The template; the clock is read twice.\<close>

definition client_template :: "issue_opts \<Rightarrow> nat \<Rightarrow> time \<Rightarrow> time \<Rightarrow> template" where
  "client_template opts serial now1 now2 =
     \<lparr>tp_SerialNumber = serial, tp_CommonName = ic_CN opts, tp_Organization = ic_Orgs opts,
      tp_NotBefore = now1 - 60 * 1000000000, tp_NotAfter = now2 + ic_Validity opts,
      tp_KeyUsage = {DigitalSignature, KeyEncipherment}, tp_ExtKeyUsage = [UsageClientAuth]\<rparr>"

definition IssueClientCertPEM ::
    "('c, 'k) issuer \<Rightarrow> fs \<Rightarrow> time \<Rightarrow> time \<Rightarrow> issue_opts \<Rightarrow> issue_error + cert_bundle" where
  "IssueClientCertPEM iss fs now1 now2 opts =
     (let opts = with_defaults opts
      in if ic_CN opts = [] then Inl CNRequired
         else case loadPEMCert iss fs (ic_CACertFile opts) of
             Inl e \<Rightarrow> Inl (LoadCACert e)
           | Inr caCert \<Rightarrow>
         (case loadPEMKey iss fs (ic_CAKeyFile opts) of
            Inl e \<Rightarrow> Inl (LoadCAKey e)
          | Inr caKey \<Rightarrow>
         (case is_generate iss of
            None \<Rightarrow> Inl GenerateKey
          | Some priv \<Rightarrow>
         (case is_serial iss of
            None \<Rightarrow> Inl Serial
          | Some serial \<Rightarrow>
         (case is_sign iss (client_template opts serial now1 now2) caCert priv caKey of
            None \<Rightarrow> Inl SignCert
          | Some der \<Rightarrow>
         (case is_marshal_key iss priv of
            None \<Rightarrow> Inl MarshalKey
          | Some keyDER \<Rightarrow>
         (case read_file fs (ic_CACertFile opts) of
            Inl e \<Rightarrow> Inl (ReadCACert e)
          | Inr caPEM \<Rightarrow>
              Inr \<lparr>bd_CAPEM = caPEM, bd_CertPEM = is_encode iss ''CERTIFICATE'' der,
                   bd_KeyPEM = is_encode iss ''PRIVATE KEY'' keyDER\<rparr>)))))))"

section \<open>The files\<close>

text \<open>The files that exist, with content and permissions.\<close>

type_synonym files = "string \<rightharpoonup> string \<times> 16 word"

text \<open>
  The world of the writes: the umask, whether the directory can be made, and what happens to each
  file. \<open>os.WriteFile\<close> opens the file, which creates it with the permissions or truncates it and
  keeps those it has, and then writes: if that fails (as on a full disk), some of the bytes may
  be in the file.
\<close>

datatype write_outcome = Written | NotOpened | CutOff nat

record disk =
  dk_umask :: "16 word"
  dk_mkdir :: bool
  dk_write :: "string \<Rightarrow> write_outcome"

text \<open>Whether the write succeeded, and the files after it.\<close>

definition write_file :: "disk \<Rightarrow> string \<Rightarrow> string \<Rightarrow> 16 word \<Rightarrow> files \<Rightarrow> bool \<times> files" where
  "write_file dk path content mode files =
     (let mode = (case files path of None \<Rightarrow> mode AND NOT (dk_umask dk) | Some (_, old) \<Rightarrow> old)
      in case dk_write dk path of
           NotOpened \<Rightarrow> (False, files)
         | CutOff n \<Rightarrow> (False, files(path \<mapsto> (take n content, mode)))
         | Written \<Rightarrow> (True, files(path \<mapsto> (content, mode))))"

definition perm_rw_r_r :: "16 word" where "perm_rw_r_r = 0x1A4"
definition perm_rw :: "16 word" where "perm_rw = 0x180"

fun write_all :: "disk \<Rightarrow> (string \<times> string \<times> 16 word) list \<Rightarrow> files \<Rightarrow> issue_error option \<times> files" where
  "write_all dk [] files = (None, files)"
| "write_all dk ((path, content, mode) # ws) files =
     (let (ok, files) = write_file dk path content mode files
      in if \<not> ok then (Some (WriteFile path), files) else write_all dk ws files)"

definition bundle_files :: "string \<Rightarrow> cert_bundle \<Rightarrow> (string \<times> string \<times> 16 word) list" where
  "bundle_files dir b =
     [(path_join [dir, ''ca.pem''], bd_CAPEM b, perm_rw_r_r),
      (path_join [dir, ''client.pem''], bd_CertPEM b, perm_rw_r_r),
      (path_join [dir, ''client.key''], bd_KeyPEM b, perm_rw)]"

definition IssueClientCert ::
    "('c, 'k) issuer \<Rightarrow> fs \<Rightarrow> disk \<Rightarrow> time \<Rightarrow> time \<Rightarrow> issue_opts \<Rightarrow> files \<Rightarrow> issue_error option \<times> files" where
  "IssueClientCert iss fs dk now1 now2 opts files =
     (if ic_OutDir opts = [] then (Some OutDirRequired, files)
      else case IssueClientCertPEM iss fs now1 now2 opts of
          Inl e \<Rightarrow> (Some e, files)
        | Inr b \<Rightarrow>
            if \<not> dk_mkdir dk then (Some Mkdir, files)
            else write_all dk (bundle_files (ic_OutDir opts) b) files)"

text \<open>The command: \<open>args\<close> are its parsed flags, \<open>None\<close> if they do not parse; the exit code.\<close>

definition runIssueClientCert ::
    "('c, 'k) issuer \<Rightarrow> fs \<Rightarrow> disk \<Rightarrow> time \<Rightarrow> time \<Rightarrow> issue_opts option \<Rightarrow> files \<Rightarrow> int \<times> files" where
  "runIssueClientCert iss fs dk now1 now2 args files =
     (case args of
        None \<Rightarrow> (2, files)
      | Some opts \<Rightarrow>
          if ic_CN opts = [] \<or> ic_OutDir opts = [] then (2, files)
          else (case IssueClientCert iss fs dk now1 now2 (opts\<lparr>ic_Orgs := []\<rparr>) files of
              (Some _, files) \<Rightarrow> (1, files)
            | (None, files) \<Rightarrow> (0, files)))"

section \<open>Properties\<close>

lemma bundle_select:
  "bd_CAPEM \<lparr>bd_CAPEM = a, bd_CertPEM = c, bd_KeyPEM = k\<rparr> = a"
  "bd_CertPEM \<lparr>bd_CAPEM = a, bd_CertPEM = c, bd_KeyPEM = k\<rparr> = c"
  "bd_KeyPEM \<lparr>bd_CAPEM = a, bd_CertPEM = c, bd_KeyPEM = k\<rparr> = k"
  by simp_all

lemma IssueClientCertPEM_Inr:
  assumes "IssueClientCertPEM iss fs now1 now2 opts = Inr b"
  shows "\<exists>caCert caKey priv serial der keyDER.
    loadPEMCert iss fs (ic_CACertFile (with_defaults opts)) = Inr caCert \<and>
    loadPEMKey iss fs (ic_CAKeyFile (with_defaults opts)) = Inr caKey \<and>
    is_generate iss = Some priv \<and>
    is_sign iss (client_template (with_defaults opts) serial now1 now2) caCert priv caKey = Some der \<and>
    is_marshal_key iss priv = Some keyDER \<and>
    bd_CertPEM b = is_encode iss ''CERTIFICATE'' der \<and> bd_KeyPEM b = is_encode iss ''PRIVATE KEY'' keyDER \<and>
    read_file fs (ic_CACertFile (with_defaults opts)) = Inr (bd_CAPEM b) \<and> ic_CN opts \<noteq> []"
proof -
  have "ic_CN (with_defaults opts) = ic_CN opts" by (simp add: with_defaults_def)
  then show ?thesis
    using assms
    by (simp add: IssueClientCertPEM_def Let_def split: sum.splits option.splits if_splits)
      (metis bundle_select)
qed

text \<open>C20: A minted certificate is one for a client and nothing else: what the CA's key signs names
  the requested identity, may only authenticate clients, is valid from a minute ago for the
  requested time (a year if none is given), and belongs to the key that is handed out with
  it, together with the CA's own file.\<close>

theorem issued_for_client:
  assumes "IssueClientCertPEM iss fs now1 now2 opts = Inr b"
  shows "\<exists>tmpl caCert caKey priv der keyDER.
    is_sign iss tmpl caCert priv caKey = Some der \<and> bd_CertPEM b = is_encode iss ''CERTIFICATE'' der \<and>
    is_marshal_key iss priv = Some keyDER \<and> bd_KeyPEM b = is_encode iss ''PRIVATE KEY'' keyDER \<and>
    loadPEMKey iss fs (if ic_CAKeyFile opts = [] then DefaultCAkeyPath else ic_CAKeyFile opts) = Inr caKey \<and>
    read_file fs (if ic_CACertFile opts = [] then DefaultCAcertPath else ic_CACertFile opts) = Inr (bd_CAPEM b) \<and>
    tp_CommonName tmpl = ic_CN opts \<and> ic_CN opts \<noteq> [] \<and> tp_ExtKeyUsage tmpl = [UsageClientAuth] \<and>
    now1 - tp_NotBefore tmpl = 60 * 1000000000 \<and>
    tp_NotAfter tmpl - now2 = (if ic_Validity opts = 0 then 31536000 * 1000000000 else ic_Validity opts)"
proof -
  obtain caCert caKey priv serial der keyDER where
    r: "loadPEMKey iss fs (ic_CAKeyFile (with_defaults opts)) = Inr caKey"
      "is_sign iss (client_template (with_defaults opts) serial now1 now2) caCert priv caKey = Some der"
      "is_marshal_key iss priv = Some keyDER"
      "bd_CertPEM b = is_encode iss ''CERTIFICATE'' der" "bd_KeyPEM b = is_encode iss ''PRIVATE KEY'' keyDER"
      "read_file fs (ic_CACertFile (with_defaults opts)) = Inr (bd_CAPEM b)" "ic_CN opts \<noteq> []"
    using IssueClientCertPEM_Inr [OF assms] by blast
  show ?thesis
    by (rule exI [of _ "client_template (with_defaults opts) serial now1 now2"], rule exI [of _ caCert],
        rule exI [of _ caKey], rule exI [of _ priv], rule exI [of _ der], rule exI [of _ keyDER])
      (use r in \<open>simp add: client_template_def with_defaults_def\<close>)
qed

definition sample_issuer :: "(unit, unit) issuer" where
  "sample_issuer =
     \<lparr>is_blocks = (\<lambda>b. [(b, [])]), is_parse_cert = (\<lambda>_. Some ()), is_parse_key = (\<lambda>_ _. Some ()),
      is_generate = Some (), is_serial = Some 7, is_sign = (\<lambda>_ _ _ _. Some ''der''),
      is_marshal_key = (\<lambda>_. Some ''key''), is_encode = (\<lambda>t b. t @ b)\<rparr>"

definition ca_fs :: fs where
  "ca_fs = fs_of [(DefaultCAcertPath, RegFile (Inr ''CERTIFICATE'')), (DefaultCAkeyPath, RegFile (Inr ''PRIVATE KEY''))]"

definition sample_opts :: issue_opts where
  "sample_opts = \<lparr>ic_CACertFile = [], ic_CAKeyFile = [], ic_CN = ''me'', ic_OutDir = ''/out'', ic_Validity = 0, ic_Orgs = []\<rparr>"

lemma sample_issue: "\<exists>b. IssueClientCertPEM sample_issuer ca_fs 0 0 sample_opts = Inr b"
proof -
  have "read_file ca_fs DefaultCAcertPath = Inr ''CERTIFICATE''" "read_file ca_fs DefaultCAkeyPath = Inr ''PRIVATE KEY''"
    by (simp_all add: read_file_iff) (simp_all add: ca_fs_def fs_of_def DefaultCAcertPath_def DefaultCAkeyPath_def)
  then show ?thesis
    by (simp add: IssueClientCertPEM_def with_defaults_def sample_opts_def loadPEMCert_def loadPEMKey_def sample_issuer_def)
qed

lemma issued_for_client_witness:
  "\<exists>b (tmpl :: template). IssueClientCertPEM sample_issuer ca_fs 0 0 sample_opts = Inr b \<and>
     tp_CommonName tmpl = ''me'' \<and> tp_ExtKeyUsage tmpl = [UsageClientAuth] \<and> tp_NotAfter tmpl = 31536000 * 1000000000"
proof -
  obtain b where b: "IssueClientCertPEM sample_issuer ca_fs 0 0 sample_opts = Inr b" using sample_issue by blast
  obtain tmpl :: template where "tp_CommonName tmpl = ic_CN sample_opts" "tp_ExtKeyUsage tmpl = [UsageClientAuth]"
    "tp_NotAfter tmpl - 0 = (if ic_Validity sample_opts = 0 then 31536000 * 1000000000 else ic_Validity sample_opts)"
    using issued_for_client [OF b] by blast
  then show ?thesis using b by (intro exI [of _ b] exI [of _ tmpl]) (simp add: sample_opts_def)
qed

text \<open>The writes one by one.\<close>

lemma write_file_other: "q \<noteq> path \<Longrightarrow> snd (write_file dk path content mode files) q = files q"
  by (simp add: write_file_def Let_def split: write_outcome.split)

text \<open>Who may read a file: the bits of the group and of the others.\<close>

definition shared :: "16 word \<Rightarrow> bool" where
  "shared mode \<longleftrightarrow> mode AND 0x3F \<noteq> 0"

lemma key_not_shared: "\<not> shared (perm_rw AND NOT m)"
proof -
  have "perm_rw AND 0x3F = 0" by (simp add: perm_rw_def)
  then show ?thesis unfolding shared_def by (metis and.assoc and.commute and_zero_eq)
qed

definition key_path :: "issue_opts \<Rightarrow> string" where
  "key_path opts = path_join [ic_OutDir opts, ''client.key'']"

lemma key_path_neq:
  "path_join [dir, ''ca.pem''] \<noteq> path_join [dir, ''client.key'']"
  "path_join [dir, ''client.pem''] \<noteq> path_join [dir, ''client.key'']"
proof -
  have "plain_comp ''ca.pem''" "plain_comp ''client.pem''" "plain_comp ''client.key''"
    by (simp_all add: plain_comp_def)
  then have "base_of (path_join [dir, ''ca.pem'']) = ''ca.pem''" "base_of (path_join [dir, ''client.pem'']) = ''client.pem''"
    "base_of (path_join [dir, ''client.key'']) = ''client.key''"
    by (simp_all only: base_of_path_join)
  then show "path_join [dir, ''ca.pem''] \<noteq> path_join [dir, ''client.key'']"
    "path_join [dir, ''client.pem''] \<noteq> path_join [dir, ''client.key'']" by auto
qed

text \<open>What is left of the key after writing it: nothing new, or as much of it as was written, with the
  permissions of the file that was there, or else only for its owner.\<close>

definition key_left :: "cert_bundle \<Rightarrow> (string \<times> 16 word) option \<Rightarrow> (string \<times> 16 word) option \<Rightarrow> bool" where
  "key_left b old new \<longleftrightarrow>
     (\<exists>n mode. new = Some (take n (bd_KeyPEM b), mode) \<and>
        (case old of None \<Rightarrow> \<not> shared mode | Some (_, m) \<Rightarrow> mode = m))"

lemma write_key:
  "let (ok, files') = write_file dk path (bd_KeyPEM b) perm_rw files
   in (if ok then key_left b (files path) (files' path) \<and> map_option fst (files' path) = Some (bd_KeyPEM b)
       else files' path = files path \<or> key_left b (files path) (files' path))"
proof -
  have all: "take (length (bd_KeyPEM b)) (bd_KeyPEM b) = bd_KeyPEM b" by simp
  have "key_left b (files path) (Some (take n (bd_KeyPEM b),
      case files path of None \<Rightarrow> perm_rw AND NOT (dk_umask dk) | Some (_, old) \<Rightarrow> old))" for n
    using key_not_shared by (auto simp: key_left_def split: option.split)
  from this this [of "length (bd_KeyPEM b)", unfolded all] show ?thesis
    by (auto simp: write_file_def Let_def split: write_outcome.split)
qed

text \<open>The key is written last.\<close>

lemma write_bundle:
  "case write_all dk (bundle_files dir b) files of
     (None, files') \<Rightarrow> key_left b (files (path_join [dir, ''client.key''])) (files' (path_join [dir, ''client.key''])) \<and>
       map_option fst (files' (path_join [dir, ''client.key''])) = Some (bd_KeyPEM b)
   | (Some e, files') \<Rightarrow> files' (path_join [dir, ''client.key'']) = files (path_join [dir, ''client.key'']) \<or>
       e = WriteFile (path_join [dir, ''client.key'']) \<and>
       key_left b (files (path_join [dir, ''client.key''])) (files' (path_join [dir, ''client.key'']))"
proof -
  let ?key = "path_join [dir, ''client.key'']"
  obtain ok1 f1 where w1: "write_file dk (path_join [dir, ''ca.pem'']) (bd_CAPEM b) perm_rw_r_r files = (ok1, f1)" by fastforce
  obtain ok2 f2 where w2: "write_file dk (path_join [dir, ''client.pem'']) (bd_CertPEM b) perm_rw_r_r f1 = (ok2, f2)" by fastforce
  obtain ok3 f3 where w3: "write_file dk ?key (bd_KeyPEM b) perm_rw f2 = (ok3, f3)" by fastforce
  have k: "f1 ?key = files ?key" "f2 ?key = files ?key"
    using write_file_other [OF key_path_neq(1) [symmetric], of dk dir "bd_CAPEM b" perm_rw_r_r files]
      write_file_other [OF key_path_neq(2) [symmetric], of dk dir "bd_CertPEM b" perm_rw_r_r f1] w1 w2 by simp_all
  show ?thesis
    using write_key [of dk ?key b f2] by (simp add: bundle_files_def w1 w2 w3 k Let_def split: if_splits)
qed

text \<open>C21: A new private key is readable by its owner only, whatever the umask and whichever write fails,
  and if the command succeeds it is the one that belongs to the minted certificate. The key file
  changes only then or when writing the key itself fails, and what is left of it in that case is
  the beginning of the key, as private. A key file that exists keeps its permissions, though,
  even if it is open to everybody.\<close>

theorem issue_key_private:
  "case IssueClientCert iss fs dk now1 now2 opts files of
     (Some e, files') \<Rightarrow> files' (key_path opts) = files (key_path opts) \<or>
       e = WriteFile (key_path opts) \<and>
       (\<exists>b n mode. IssueClientCertPEM iss fs now1 now2 opts = Inr b \<and>
          files' (key_path opts) = Some (take n (bd_KeyPEM b), mode) \<and>
          (case files (key_path opts) of None \<Rightarrow> \<not> shared mode | Some (_, old) \<Rightarrow> mode = old))
   | (None, files') \<Rightarrow> \<exists>b mode. IssueClientCertPEM iss fs now1 now2 opts = Inr b \<and>
       files' (key_path opts) = Some (bd_KeyPEM b, mode) \<and>
       (case files (key_path opts) of None \<Rightarrow> \<not> shared mode | Some (_, old) \<Rightarrow> mode = old)"
proof (cases "IssueClientCertPEM iss fs now1 now2 opts")
  case (Inr b)
  show ?thesis
  proof (cases "ic_OutDir opts = [] \<or> \<not> dk_mkdir dk")
    case True
    then show ?thesis using Inr by (auto simp: IssueClientCert_def)
  next
    case False
    obtain e files' where w: "write_all dk (bundle_files (ic_OutDir opts) b) files = (e, files')"
      by (cases "write_all dk (bundle_files (ic_OutDir opts) b) files")
    then have r: "IssueClientCert iss fs dk now1 now2 opts files = (e, files')"
      using Inr False by (simp add: IssueClientCert_def)
    show ?thesis
      using write_bundle [where dir = "ic_OutDir opts" and b = b and files = files and dk = dk] Inr
      unfolding w r key_path_def key_left_def by (cases e) auto
  qed
qed (simp add: IssueClientCert_def)

end
