(* ===== verification/Tail_Cmd.thy ===== *)
theory Tail_Cmd
  imports Tail Issue
begin

text \<open>
  The \<open>tail\<close> command from its flags to its exit code (\<open>cmd/proxmox-eventbus/tail.go\<close>): the
  certificate it mints for itself in memory, the connection and the subscriptions. The NATS
  client is in the record \<open>tail_nats\<close>; the parsed flags are an argument.
\<close>

record ('p, 'c) tail_tls =
  tt_MinTLS12 :: bool
  tt_Certificate :: 'c
  tt_RootCAs :: 'p
  tt_InsecureSkipVerify :: bool

datatype tail_tls_error = TailIssue issue_error | TailPair | TailNoPEM

text \<open>\<open>pair_of_pem\<close> is \<open>tls.X509KeyPair\<close>, \<open>pool_of\<close> the pool of a PEM bundle.\<close>

definition buildTailTLS ::
    "('i, 'k) issuer \<Rightarrow> (string \<Rightarrow> string \<Rightarrow> 'c option) \<Rightarrow> (string \<Rightarrow> 'p option) \<Rightarrow> fs \<Rightarrow> time \<Rightarrow> time
       \<Rightarrow> config \<Rightarrow> string \<Rightarrow> int \<Rightarrow> bool \<Rightarrow> tail_tls_error + ('p, 'c) tail_tls" where
  "buildTailTLS iss pair_of_pem pool_of fs now1 now2 cfg cn validity skipVerify =
     (case IssueClientCertPEM iss fs now1 now2
             \<lparr>ic_CACertFile = tc_CAFile (na_TLS (cf_NATS cfg)), ic_CAKeyFile = [], ic_CN = cn,
              ic_OutDir = [], ic_Validity = validity, ic_Orgs = []\<rparr> of
        Inl e \<Rightarrow> Inl (TailIssue e)
      | Inr b \<Rightarrow>
          (case pair_of_pem (bd_CertPEM b) (bd_KeyPEM b) of
             None \<Rightarrow> Inl TailPair
           | Some cert \<Rightarrow>
               (case pool_of (bd_CAPEM b) of
                  None \<Rightarrow> Inl TailNoPEM
                | Some pool \<Rightarrow>
                    Inr \<lparr>tt_MinTLS12 = True, tt_Certificate = cert, tt_RootCAs = pool,
                         tt_InsecureSkipVerify = skipVerify\<rparr>)))"

record tail_args =
  ta_config :: string
  ta_server :: string
  ta_cn :: string
  ta_validity :: int
  ta_skipServerVerify :: bool
  ta_subjects :: "string list"

text \<open>The flags that are not given.\<close>

definition tail_defaults :: tail_args where
  "tail_defaults =
     \<lparr>ta_config = DefaultPath, ta_server = ''tls://127.0.0.1:4222'', ta_cn = ''proxmox-eventbus/tail'',
      ta_validity = 3600 * 1000000000, ta_skipServerVerify = True, ta_subjects = []\<rparr>"

record ('p, 'c) tail_nats =
  tn_connect :: "string \<Rightarrow> ('p, 'c) tail_tls \<Rightarrow> bool"
  tn_subscribe :: "string \<Rightarrow> bool"
  tn_flush :: bool

text \<open>The subscriptions in order, up to the first that fails.\<close>

fun subscribe_all :: "(string \<Rightarrow> bool) \<Rightarrow> string list \<Rightarrow> bool \<times> string list" where
  "subscribe_all sub [] = (True, [])"
| "subscribe_all sub (s # ss) =
     (if \<not> sub s then (False, [])
      else let (ok, done) = subscribe_all sub ss in (ok, s # done))"

text \<open>The exit code and the subjects subscribed to; 0 comes when the command is interrupted.\<close>

definition runTail ::
    "(config \<Rightarrow> string \<Rightarrow> config \<times> bool) \<Rightarrow> ('i, 'k) issuer \<Rightarrow> (string \<Rightarrow> string \<Rightarrow> 'c option)
       \<Rightarrow> (string \<Rightarrow> 'p option) \<Rightarrow> ('p, 'c) tail_nats \<Rightarrow> fs \<Rightarrow> time \<Rightarrow> time \<Rightarrow> tail_args option
       \<Rightarrow> int \<times> string list" where
  "runTail decode iss pair_of_pem pool_of nats fs now1 now2 args =
     (case args of
        None \<Rightarrow> (2, [])
      | Some a \<Rightarrow>
          if ta_subjects a = [] then (2, [])
          else (case Load decode fs (ta_config a) of
              (_, Some _) \<Rightarrow> (1, [])
            | (cfg, None) \<Rightarrow>
                (case buildTailTLS iss pair_of_pem pool_of fs now1 now2 cfg (ta_cn a) (ta_validity a)
                        (ta_skipServerVerify a) of
                   Inl _ \<Rightarrow> (1, [])
                 | Inr tls \<Rightarrow>
                     if \<not> tn_connect nats (ta_server a) tls then (1, [])
                     else
                       let (ok, subs) = subscribe_all (tn_subscribe nats) (ta_subjects a)
                       in if \<not> ok \<or> \<not> tn_flush nats then (1, subs) else (0, subs))))"

section \<open>Properties\<close>

lemma subscribe_all_ok: "subscribe_all sub ss = (ok, done) \<Longrightarrow>
    done = takeWhile sub ss \<and> ok = list_all sub ss"
  by (induction ss arbitrary: ok "done") (auto simp: Let_def split: if_splits prod.splits)

text \<open>C39: The command tails only what it was asked for and only with a valid configuration: it goes
  on (and ends with 0 when interrupted) only if it has subscribed to every subject given, over
  a connection with a certificate minted for its own name and a pool of the CA; in every other
  case it ends with 1, or 2 if it was not used properly, and has then subscribed at most to
  the subjects before the first that was refused.\<close>

theorem runTail_exit:
  assumes "runTail decode iss pair_of_pem pool_of nats fs now1 now2 (Some a) = (code, subs)"
  shows "code \<in> {0, 1, 2} \<and> (code = 2 \<longleftrightarrow> ta_subjects a = []) \<and>
    (subs = [] \<or> subs = takeWhile (tn_subscribe nats) (ta_subjects a)) \<and>
    (code = 0 \<longrightarrow> subs = ta_subjects a \<and>
      (\<exists>cfg b cert pool. valid_config cfg \<and>
        IssueClientCertPEM iss fs now1 now2
          \<lparr>ic_CACertFile = tc_CAFile (na_TLS (cf_NATS cfg)), ic_CAKeyFile = [], ic_CN = ta_cn a,
           ic_OutDir = [], ic_Validity = ta_validity a, ic_Orgs = []\<rparr> = Inr b \<and>
        pair_of_pem (bd_CertPEM b) (bd_KeyPEM b) = Some cert \<and> pool_of (bd_CAPEM b) = Some pool \<and>
        tn_connect nats (ta_server a)
          \<lparr>tt_MinTLS12 = True, tt_Certificate = cert, tt_RootCAs = pool,
           tt_InsecureSkipVerify = ta_skipServerVerify a\<rparr>))"
proof (cases "ta_subjects a = []")
  case True
  then show ?thesis using assms by (simp add: runTail_def)
next
  case subjects: False
  obtain cfg err where L: "Load decode fs (ta_config a) = (cfg, err)" by (cases "Load decode fs (ta_config a)")
  obtain ok "done" where S: "subscribe_all (tn_subscribe nats) (ta_subjects a) = (ok, done)"
    by (cases "subscribe_all (tn_subscribe nats) (ta_subjects a)")
  let ?tls = "buildTailTLS iss pair_of_pem pool_of fs now1 now2 cfg (ta_cn a) (ta_validity a) (ta_skipServerVerify a)"
  show ?thesis
  proof (cases "err = None \<and> (\<exists>tls. ?tls = Inr tls \<and> tn_connect nats (ta_server a) tls)")
    case False
    then have "code = 1 \<and> subs = []"
      using assms subjects L by (auto simp: runTail_def split: option.splits sum.splits)
    then show ?thesis using subjects by simp
  next
    case True
    then obtain tls where err: "err = None" and T: "?tls = Inr tls" and conn: "tn_connect nats (ta_server a) tls" by blast
    then have r: "code = (if ok \<and> tn_flush nats then 0 else 1)" "subs = done"
      using assms subjects L S by (auto simp: runTail_def split: if_splits)
    have "valid_config cfg" using L err Load_None_valid by blast
    moreover have "ok \<longrightarrow> done = ta_subjects a"
      using subscribe_all_ok [OF S] by (auto simp: takeWhile_eq_all_conv list_all_iff)
    ultimately show ?thesis
      using r subjects subscribe_all_ok [OF S] T conn
      by (auto simp: buildTailTLS_def split: sum.splits option.splits)
  qed
qed

lemma runTail_exit_witness:
  "\<exists>code subs. runTail (\<lambda>c _. (c, False)) sample_issuer (\<lambda>_ _. Some ()) (\<lambda>_. Some ())
     \<lparr>tn_connect = (\<lambda>_ _. True), tn_subscribe = (\<lambda>s. s \<noteq> ''bad''), tn_flush = True\<rparr> ca_fs 0 0
     (Some (tail_defaults\<lparr>ta_subjects := [''pve.>'', ''bad'', ''x'']\<rparr>)) = (code, subs) \<and>
   (subs = [] \<or> subs = [''pve.>''])"
proof -
  let ?n = "\<lparr>tn_connect = (\<lambda>_ _. True), tn_subscribe = (\<lambda>s. s \<noteq> ''bad''), tn_flush = True\<rparr> :: (unit, unit) tail_nats"
  let ?a = "tail_defaults\<lparr>ta_subjects := [''pve.>'', ''bad'', ''x'']\<rparr>"
  obtain code subs where r: "runTail (\<lambda>c _. (c, False)) sample_issuer (\<lambda>_ _. Some ()) (\<lambda>_. Some ()) ?n ca_fs 0 0
      (Some ?a) = (code, subs)" by fastforce
  show ?thesis using runTail_exit [OF r] r by auto
qed

end
