(* ===== verification/Main_Cmd.thy ===== *)
theory Main_Cmd
  imports Daemon Tail_Cmd
begin

text \<open>
  The program from its arguments to its exit code (\<open>main\<close> in \<open>cmd/proxmox-eventbus/main.go\<close>),
  with its version (\<open>internal/version\<close>) and the notification of systemd (\<open>sd_notify.go\<close>).
\<close>

text \<open>The variables of the package, set by the build.\<close>

record version =
  ve_Version :: string
  ve_Commit :: string
  ve_Date :: string

definition version_dev :: version where
  "version_dev = \<lparr>ve_Version = ''dev'', ve_Commit = ''none'', ve_Date = ''unknown''\<rparr>"

definition version_String :: "version \<Rightarrow> string" where
  "version_String v = ve_Version v @ '' ('' @ ve_Commit v @ '', '' @ ve_Date v @ '')''"

definition help_text :: "version \<Rightarrow> string" where
  "help_text v = concat (map (\<lambda>l. l @ [CHR 0x0A])
     [''proxmox-eventbus '' @ version_String v,
      [],
      ''Usage:'',
      ''  proxmox-eventbus                    run the daemon (reads /etc/proxmox-eventbus/config.yaml)'',
      ''  proxmox-eventbus tail <subject>...  subscribe over local NATS and print events'',
      ''  proxmox-eventbus issue-client-cert  mint a client cert signed by the PVE cluster CA'',
      ''  proxmox-eventbus version            print version'',
      ''  proxmox-eventbus help               print this help''])"

text \<open>
  The datagrams sent to systemd, as pairs of a socket and a message: \<open>sock\<close> is the environment's
  \<open>NOTIFY_SOCKET\<close> (empty if unset), \<open>dial\<close> says whether the socket can be opened. A failed
  write is ignored like one that succeeds.
\<close>

definition notifyReady :: "(string \<Rightarrow> bool) \<Rightarrow> string \<Rightarrow> (string \<times> string) list" where
  "notifyReady dial sock =
     (if sock = [] then []
      else if \<not> dial sock then []
      else [(sock, ''READY=1'' @ [CHR 0x0A] @ ''STATUS=running'' @ [CHR 0x0A])])"

section \<open>The command-line switch\<close>

datatype subcommand =
    RunIssue "string list"
  | RunTail "string list"
  | PrintVersion
  | PrintHelp
  | RunDaemon "string list"

text \<open>\<open>argv\<close> is \<open>os.Args\<close>: the program's name and its arguments.\<close>

definition main_command :: "string list \<Rightarrow> subcommand" where
  "main_command argv =
     (case argv of
        prog # cmd # args \<Rightarrow>
          if cmd = ''issue-client-cert'' then RunIssue args
          else if cmd = ''tail'' then RunTail args
          else if cmd \<in> {''version'', ''-v'', ''--version''} then PrintVersion
          else if cmd \<in> {''help'', ''-h'', ''--help''} then PrintHelp
          else RunDaemon (tl argv)
      | _ \<Rightarrow> RunDaemon (tl argv))"

text \<open>
  Go's flag parsing: the two commands turn a failure into their code 2, while the daemon's
  flags are those of the package, which exit the program on their own (\<open>Inl\<close> the code).
\<close>

record flags =
  fl_issue :: "string list \<Rightarrow> issue_opts option"
  fl_tail :: "string list \<Rightarrow> tail_args option"
  fl_daemon :: "string list \<Rightarrow> int + string"

text \<open>
  What a process leaves: its exit code, the datagrams sent to systemd and the files. The
  version and the help are printed on standard output, given in \<open>px_stdout\<close>; the other
  commands' own messages are not in it. \<open>go_main\<close> is a run that ends without panic: the
  daemon, once started, ends when it is told to, with no error.
\<close>

record process =
  px_code :: int
  px_stdout :: string
  px_notified :: "(string \<times> string) list"
  px_files :: files

definition run_daemon ::
    "('u, 'p, 'c) outside \<Rightarrow> (time \<Rightarrow> fs) \<Rightarrow> time \<Rightarrow> (string \<Rightarrow> bool) \<Rightarrow> string \<Rightarrow> int + string
       \<Rightarrow> int \<times> (string \<times> string) list" where
  "run_daemon out env now dial sock parsed =
     (case parsed of
        Inl code \<Rightarrow> (code, [])
      | Inr path \<Rightarrow>
          (case daemon_start out env now path of
             Inl _ \<Rightarrow> (1, [])
           | Inr _ \<Rightarrow> (0, notifyReady dial sock)))"

definition go_main ::
    "version \<Rightarrow> flags \<Rightarrow> ('i, 'k) issuer \<Rightarrow> disk \<Rightarrow> (string \<Rightarrow> string \<Rightarrow> 'd option) \<Rightarrow> (string \<Rightarrow> 'q option)
       \<Rightarrow> ('q, 'd) tail_nats \<Rightarrow> ('u, 'p, 'c) outside \<Rightarrow> (time \<Rightarrow> fs) \<Rightarrow> time \<Rightarrow> time
       \<Rightarrow> (string \<Rightarrow> bool) \<Rightarrow> string \<Rightarrow> string list \<Rightarrow> files \<Rightarrow> process" where
  "go_main v fl iss dk pair_of_pem pool_of nats out env now1 now2 dial sock argv files =
     (case main_command argv of
        RunIssue args \<Rightarrow>
          let (code, files) = runIssueClientCert iss (env now1) dk now1 now2 (fl_issue fl args) files
          in \<lparr>px_code = code, px_stdout = [], px_notified = [], px_files = files\<rparr>
      | RunTail args \<Rightarrow>
          let (code, _) = runTail (ou_decode out) iss pair_of_pem pool_of nats (env now1) now1 now2 (fl_tail fl args)
          in \<lparr>px_code = code, px_stdout = [], px_notified = [], px_files = files\<rparr>
      | PrintVersion \<Rightarrow>
          \<lparr>px_code = 0, px_stdout = version_String v @ [CHR 0x0A], px_notified = [], px_files = files\<rparr>
      | PrintHelp \<Rightarrow> \<lparr>px_code = 0, px_stdout = help_text v, px_notified = [], px_files = files\<rparr>
      | RunDaemon args \<Rightarrow>
          let (code, sent) = run_daemon out env now1 dial sock (fl_daemon fl args)
          in \<lparr>px_code = code, px_stdout = [], px_notified = sent, px_files = files\<rparr>)"

section \<open>Lemmas\<close>

text \<open>systemd hears of the daemon only once the bus has started.\<close>

lemma notified_started:
  assumes "px_notified (go_main v fl iss dk pair_of_pem pool_of nats out env now1 now2 dial sock argv files) \<noteq> []"
  shows "\<exists>args path d. main_command argv = RunDaemon args \<and> fl_daemon fl args = Inr path \<and>
    daemon_start out env now1 path = Inr d"
  using assms by (auto simp: go_main_def run_daemon_def split: subcommand.splits prod.splits sum.splits)

text \<open>Only \<open>issue-client-cert\<close> writes files, and not when it is misused.\<close>

lemma only_issue_writes:
  assumes "px_files (go_main v fl iss dk pair_of_pem pool_of nats out env now1 now2 dial sock argv files) \<noteq> files"
  shows "\<exists>args opts. main_command argv = RunIssue args \<and> fl_issue fl args = Some opts \<and>
    ic_CN opts \<noteq> [] \<and> ic_OutDir opts \<noteq> []"
  using assms
  by (auto simp: go_main_def runIssueClientCert_def split: subcommand.splits prod.splits option.splits if_splits)

text \<open>A command that is mistyped is no error: the daemon is started, with the word as an argument.\<close>

lemma mistyped_starts_daemon:
  "main_command [''proxmox-eventbus'', ''tial''] = RunDaemon [''tial'']"
  by (simp add: main_command_def)

end
