(* ===== verification/Journal.thy ===== *)
theory Journal
  imports Go_Strconv
begin

text \<open>
  The log handler (\<open>internal/journal/journal.go\<close>): the choice of the handler and of the level,
  and the lines with severity prefixes that journald reads. Levels are slog's integers; an
  attribute is resolved already, a string or the text that \<open>%v\<close> gives; \<open>quote\<close> is \<open>%q\<close>. The
  JSON and text handlers are slog's own.
\<close>

section \<open>Levels\<close>

definition LevelDebug :: int where "LevelDebug = - 4"
definition LevelInfo :: int where "LevelInfo = 0"
definition LevelWarn :: int where "LevelWarn = 4"
definition LevelError :: int where "LevelError = 8"

lemmas level_defs = LevelDebug_def LevelInfo_def LevelWarn_def LevelError_def

definition parseLevel :: "string \<Rightarrow> int" where
  "parseLevel s =
     (let l = to_lower s
      in if l = ''debug'' then LevelDebug
         else if l = ''warn'' \<or> l = ''warning'' then LevelWarn
         else if l = ''error'' then LevelError
         else LevelInfo)"

definition sdPriority :: "int \<Rightarrow> int" where
  "sdPriority l =
     (if l \<le> LevelDebug then 7 else if l \<le> LevelInfo then 6 else if l \<le> LevelWarn then 4 else 3)"

section \<open>The handler\<close>

datatype attr_value = AString string | AAny string

type_synonym attr = "string \<times> attr_value"

record journald =
  jh_lvl :: int
  jh_attrs :: "attr list"
  jh_group :: string

datatype handler = JSONHandler int | TextHandler int | Journald journald

definition NewHandler :: "string \<Rightarrow> string \<Rightarrow> handler" where
  "NewHandler format level =
     (let lvl = parseLevel level
      in if format = ''json'' then JSONHandler lvl
         else if format = ''text'' then TextHandler lvl
         else Journald \<lparr>jh_lvl = lvl, jh_attrs = [], jh_group = []\<rparr>)"

definition Enabled :: "journald \<Rightarrow> int \<Rightarrow> bool" where
  "Enabled h l \<longleftrightarrow> jh_lvl h \<le> l"

definition WithAttrs :: "attr list \<Rightarrow> journald \<Rightarrow> journald" where
  "WithAttrs attrs h = h\<lparr>jh_attrs := jh_attrs h @ attrs\<rparr>"

definition WithGroup :: "string \<Rightarrow> journald \<Rightarrow> journald" where
  "WithGroup name h = h\<lparr>jh_group := name\<rparr>"

definition writeAttr :: "(string \<Rightarrow> string) \<Rightarrow> string \<Rightarrow> attr \<Rightarrow> string" where
  "writeAttr quote grp a =
     (let key = (if grp \<noteq> [] then grp @ ''.'' @ fst a else fst a)
      in '' '' @ key @ ''='' @ (case snd a of AString s \<Rightarrow> quote s | AAny t \<Rightarrow> t))"

definition Handle :: "(string \<Rightarrow> string) \<Rightarrow> journald \<Rightarrow> int \<Rightarrow> string \<Rightarrow> attr list \<Rightarrow> string" where
  "Handle quote h level msg attrs =
     ''<'' @ show_int (sdPriority level) @ ''>'' @ msg @
     concat (map (writeAttr quote (jh_group h)) (jh_attrs h)) @
     concat (map (writeAttr quote (jh_group h)) attrs) @ [CHR 0x0A]"

text \<open>A record through a logger: what is written for it.\<close>

definition log_record :: "(string \<Rightarrow> string) \<Rightarrow> journald \<Rightarrow> int \<Rightarrow> string \<Rightarrow> attr list \<Rightarrow> string" where
  "log_record quote h level msg attrs = (if Enabled h level then Handle quote h level msg attrs else [])"

section \<open>Properties\<close>

text \<open>A text that stays on its line.\<close>

abbreviation flat :: "string \<Rightarrow> bool" where
  "flat s \<equiv> CHR 0x0A \<notin> set s"

definition flat_attr :: "attr \<Rightarrow> bool" where
  "flat_attr a \<longleftrightarrow> flat (fst a) \<and> (case snd a of AString _ \<Rightarrow> True | AAny t \<Rightarrow> flat t)"

lemma flat_show_int: "flat (show_int i)"
  by (rule show_int_no) simp_all

lemma flat_writeAttr:
  "\<lbrakk>\<And>s. flat (quote s); flat g; flat_attr a\<rbrakk> \<Longrightarrow> flat (writeAttr quote g a)"
  by (auto simp: writeAttr_def flat_attr_def Let_def split: attr_value.splits)

text \<open>C40: A record that is written is exactly one line: strings may hold line breaks, which their
  quoting hides, as long as the message, the keys and the other values have none. The line
  starts with the priority of its level in angle brackets; a higher level never has a less
  urgent priority; and what is below the configured level is not written.\<close>

theorem journal_line:
  assumes "\<And>s. flat (quote s)" and "flat msg" and "flat (jh_group h)"
    and "list_all flat_attr (jh_attrs h @ attrs)"
  shows "(if jh_lvl h \<le> level
     then \<exists>body. log_record quote h level msg attrs =
       ''<'' @ show_int (sdPriority level) @ ''>'' @ body @ [CHR 0x0A] \<and> flat body \<and> has_prefix body msg
     else log_record quote h level msg attrs = []) \<and>
    sdPriority level \<in> {3, 4, 6, 7} \<and> sdPriority (max level level') \<le> sdPriority level"
proof -
  let ?body = "msg @ concat (map (writeAttr quote (jh_group h)) (jh_attrs h @ attrs))"
  have "flat ?body"
    using assms flat_writeAttr [OF assms(1,3)] by (auto simp: list_all_iff)
  then show ?thesis
    by (auto simp: log_record_def Enabled_def Handle_def sdPriority_def level_defs max_def
        intro!: exI [of _ ?body])
qed

lemma journal_line_witness:
  "\<exists>body. log_record (\<lambda>_. []) \<lparr>jh_lvl = LevelInfo, jh_attrs = [], jh_group = []\<rparr> LevelWarn ''hot'' [] =
     ''<'' @ show_int 4 @ ''>'' @ body @ [CHR 0x0A] \<and> has_prefix body ''hot''"
proof -
  have "sdPriority LevelWarn = 4" "LevelInfo \<le> LevelWarn" by (simp_all add: sdPriority_def level_defs)
  then show ?thesis
    using journal_line [of "\<lambda>_. []" "''hot''" "\<lparr>jh_lvl = LevelInfo, jh_attrs = [], jh_group = []\<rparr>" "[]" LevelWarn]
    by auto
qed

text \<open>Groups do not nest and are not confined to what is added under them: only the last group
  counts, and it also qualifies the attributes that were there before it.\<close>

theorem journal_groups:
  "Handle quote (WithGroup g2 (WithGroup g1 (WithAttrs as h))) level msg attrs =
   Handle quote (WithAttrs as (WithGroup g2 h)) level msg attrs"
  by (simp add: Handle_def WithGroup_def WithAttrs_def)

end
